theory Spec2Isabelle
  imports Main "HOL-Library.Sublist"
begin

section \<open>Strings\<close>

text \<open>
  A Python \<open>str\<close> is modelled as a \<open>string\<close> whose characters are ASCII code points: the
  character classes below (\<open>str.isdigit\<close>, \<open>str.isspace\<close>, the classes \<open>\d\<close>, \<open>\w\<close>
  and \<open>\s\<close> of \<open>re\<close>) and the case mappings are those of Python on code points below 128;
  every other character is in no class and has no other case.
\<close>

definition is_digit :: "char \<Rightarrow> bool" where
  "is_digit c = (48 \<le> (of_char c :: nat) \<and> (of_char c :: nat) \<le> 57)"

definition is_upper :: "char \<Rightarrow> bool" where
  "is_upper c = (65 \<le> (of_char c :: nat) \<and> (of_char c :: nat) \<le> 90)"

definition is_lower :: "char \<Rightarrow> bool" where
  "is_lower c = (97 \<le> (of_char c :: nat) \<and> (of_char c :: nat) \<le> 122)"

definition is_alpha :: "char \<Rightarrow> bool" where
  "is_alpha c = (is_upper c \<or> is_lower c)"

definition is_alnum :: "char \<Rightarrow> bool" where
  "is_alnum c = (is_digit c \<or> is_alpha c)"

text \<open>\<open>\w\<close>: letters, digits and the underscore.\<close>

definition is_word :: "char \<Rightarrow> bool" where
  "is_word c = (is_alnum c \<or> c = CHR ''_'')"

text \<open>
  \<open>str.isspace\<close> and \<open>\s\<close>: tab, line feed, vertical tab, form feed, carriage return
  (9 to 13), the separators 28 to 31, and the space.
\<close>

definition is_space :: "char \<Rightarrow> bool" where
  "is_space c = ((9 \<le> (of_char c :: nat) \<and> (of_char c :: nat) \<le> 13)
     \<or> (28 \<le> (of_char c :: nat) \<and> (of_char c :: nat) \<le> 31) \<or> c = CHR '' '')"

definition ascii_lowercase :: string where
  "ascii_lowercase = ''abcdefghijklmnopqrstuvwxyz''"

definition ascii_uppercase :: string where
  "ascii_uppercase = ''ABCDEFGHIJKLMNOPQRSTUVWXYZ''"

definition upper_char :: "char \<Rightarrow> char" where
  "upper_char c = (case map_of (zip ascii_lowercase ascii_uppercase) c of
     Some u \<Rightarrow> u | None \<Rightarrow> c)"

definition lower_char :: "char \<Rightarrow> char" where
  "lower_char c = (case map_of (zip ascii_uppercase ascii_lowercase) c of
     Some l \<Rightarrow> l | None \<Rightarrow> c)"

definition upper :: "string \<Rightarrow> string" where
  "upper s = map upper_char s"

definition lower :: "string \<Rightarrow> string" where
  "lower s = map lower_char s"

text \<open>\<open>s.strip()\<close>: the white space at both ends goes.\<close>

definition lstrip :: "string \<Rightarrow> string" where
  "lstrip s = dropWhile is_space s"

definition rstrip :: "string \<Rightarrow> string" where
  "rstrip s = rev (dropWhile is_space (rev s))"

definition strip :: "string \<Rightarrow> string" where
  "strip s = rstrip (lstrip s)"

text \<open>\<open>s.startswith(p)\<close>, \<open>p in s\<close> and the slice \<open>s[i:j]\<close> (which never raises).\<close>

definition startswith :: "string \<Rightarrow> string \<Rightarrow> bool" where
  "startswith s p = (take (length p) s = p)"

fun contains :: "string \<Rightarrow> string \<Rightarrow> bool" where
  "contains [] p = (p = [])"
| "contains (c # cs) p = (startswith (c # cs) p \<or> contains cs p)"

definition slice :: "nat \<Rightarrow> nat \<Rightarrow> string \<Rightarrow> string" where
  "slice i j s = take (j - i) (drop i s)"

section \<open>Regular expressions\<close>

text \<open>
  The patterns of the source are terms of the type \<open>regex\<close>; a character class is a
  predicate on characters. \<open>re.match\<close> on a pattern written between \<open>^\<close> and \<open>$\<close> asks
  whether the whole string is in the pattern's language (the strings matched below never
  end in a line feed, where \<open>$\<close> would also match before it). The backtracking matcher of
  Python finds a match exactly when there is one, so the yes-or-no answer is membership in
  \<open>language\<close>, decided here by \<open>matches\<close>, which takes residuals character by character.
\<close>

datatype regex =
    Fail
  | Empty
  | Class "char \<Rightarrow> bool"
  | Either regex regex
  | Cat regex regex
  | Repeat regex

text \<open>\<open>r+\<close>, \<open>r?\<close>, one literal character, a literal string, and \<open>.\<close>.\<close>

definition Some1 :: "regex \<Rightarrow> regex" where
  "Some1 r = Cat r (Repeat r)"

definition Optional :: "regex \<Rightarrow> regex" where
  "Optional r = Either r Empty"

definition Lit :: "char \<Rightarrow> regex" where
  "Lit c = Class (\<lambda>x. x = c)"

fun Literal :: "string \<Rightarrow> regex" where
  "Literal [] = Empty"
| "Literal (c # cs) = Cat (Lit c) (Literal cs)"

definition line_feed :: char where
  "line_feed = CHR 0x0A"

definition Dot :: regex where
  "Dot = Class (\<lambda>c. c \<noteq> line_feed)"

definition cat_lang :: "string set \<Rightarrow> string set \<Rightarrow> string set" where
  "cat_lang A B = {u @ v |u v. u \<in> A \<and> v \<in> B}"

inductive_set repeat_lang :: "string set \<Rightarrow> string set" for A :: "string set" where
  repeat_nil: "[] \<in> repeat_lang A"
| repeat_more: "u \<in> A \<Longrightarrow> v \<in> repeat_lang A \<Longrightarrow> u @ v \<in> repeat_lang A"

fun language :: "regex \<Rightarrow> string set" where
  "language Fail = {}"
| "language Empty = {[]}"
| "language (Class p) = {[c] |c. p c}"
| "language (Either r s) = language r \<union> language s"
| "language (Cat r s) = cat_lang (language r) (language s)"
| "language (Repeat r) = repeat_lang (language r)"

fun matches_empty :: "regex \<Rightarrow> bool" where
  "matches_empty Fail = False"
| "matches_empty Empty = True"
| "matches_empty (Class p) = False"
| "matches_empty (Either r s) = (matches_empty r \<or> matches_empty s)"
| "matches_empty (Cat r s) = (matches_empty r \<and> matches_empty s)"
| "matches_empty (Repeat r) = True"

text \<open>The two constructors that drop a branch that cannot match any more.\<close>

fun either :: "regex \<Rightarrow> regex \<Rightarrow> regex" where
  "either Fail s = s"
| "either r Fail = r"
| "either r s = Either r s"

fun cat :: "regex \<Rightarrow> regex \<Rightarrow> regex" where
  "cat Fail s = Fail"
| "cat Empty s = s"
| "cat r s = Cat r s"

fun residual :: "char \<Rightarrow> regex \<Rightarrow> regex" where
  "residual c Fail = Fail"
| "residual c Empty = Fail"
| "residual c (Class p) = (if p c then Empty else Fail)"
| "residual c (Either r s) = either (residual c r) (residual c s)"
| "residual c (Cat r s) =
     (if matches_empty r then either (cat (residual c r) s) (residual c s)
      else cat (residual c r) s)"
| "residual c (Repeat r) = cat (residual c r) (Repeat r)"

fun residuals :: "regex \<Rightarrow> string \<Rightarrow> regex" where
  "residuals r [] = r"
| "residuals r (c # cs) = residuals (residual c r) cs"

definition matches :: "regex \<Rightarrow> string \<Rightarrow> bool" where
  "matches r s = matches_empty (residuals r s)"

text \<open>Two notions for the proofs: the words of a language after a first character, and
  the character classes a pattern is built from.\<close>

definition left_quotient :: "char \<Rightarrow> string set \<Rightarrow> string set" where
  "left_quotient c A = {w. c # w \<in> A}"

fun classes :: "regex \<Rightarrow> (char \<Rightarrow> bool) set" where
  "classes Fail = {}"
| "classes Empty = {}"
| "classes (Class p) = {p}"
| "classes (Either r s) = classes r \<union> classes s"
| "classes (Cat r s) = classes r \<union> classes s"
| "classes (Repeat r) = classes r"

text \<open>The number of white-space characters of a string.\<close>

definition spaces :: "string \<Rightarrow> nat" where
  "spaces s = length (filter is_space s)"

section \<open>Field normalisation (\<open>DataValidator\<close>)\<close>

subsection \<open>Phone numbers\<close>

text \<open>
  \<open>validate_phone\<close>. The third test of the format table is written in the source without
  parentheses, \<open>len(d) == 10 and d.startswith('1300') or d.startswith('1800')\<close>, and Python
  binds \<open>and\<close> tighter than \<open>or\<close>: the model keeps that reading.
\<close>

definition validate_phone :: "string \<Rightarrow> bool \<times> string" where
  "validate_phone phone =
     (if phone = [] then (False, [])
      else
        let d0 = filter is_digit phone;
            d = (if length d0 = 9 \<and> hd d0 = CHR ''4'' then CHR ''0'' # d0 else d0)
        in
          if 8 \<le> length d \<and> length d \<le> 12 then
            if length d = 10 \<and> startswith d ''04'' then
              (True, ''0'' @ slice 1 4 d @ '' '' @ slice 4 7 d @ '' '' @ slice 7 10 d)
            else if length d = 10 \<and> (startswith d ''02'' \<or> startswith d ''03''
                       \<or> startswith d ''07'' \<or> startswith d ''08'') then
              (True, ''('' @ slice 0 2 d @ '') '' @ slice 2 6 d @ '' '' @ slice 6 10 d)
            else if (length d = 10 \<and> startswith d ''1300'') \<or> startswith d ''1800'' then
              (True, slice 0 4 d @ '' '' @ slice 4 7 d @ '' '' @ slice 7 10 d)
            else if length d = 8 then
              (True, slice 0 4 d @ '' '' @ slice 4 8 d)
            else if length d = 9 then
              (True, slice 0 3 d @ '' '' @ slice 3 6 d @ '' '' @ slice 6 9 d)
            else (True, d)
          else (False, phone))"

text \<open>The digit string that \<open>validate_phone\<close> counts and formats.\<close>

definition phone_digits :: "string \<Rightarrow> string" where
  "phone_digits phone =
     (let d0 = filter is_digit phone
      in if length d0 = 9 \<and> hd d0 = CHR ''4'' then CHR ''0'' # d0 else d0)"

subsection \<open>Category codes\<close>

definition validate_psychologist_type :: "string \<Rightarrow> bool \<times> string" where
  "validate_psychologist_type psych_type =
     (if psych_type = [] then (False, [])
      else
        let t = upper (strip psych_type)
        in
          if t \<in> set [''C'', ''G''] then (True, t)
          else if startswith t ''C'' \<or> contains t ''CLINICAL'' then (True, ''C'')
          else if startswith t ''G'' \<or> contains t ''GENERAL'' then (True, ''G'')
          else (False, []))"

subsection \<open>Email addresses, URLs and prices\<close>

text \<open>\<open>email_pattern = ^[a-zA-Z0-9._%+-]+@[a-zA-Z0-9.-]+\.[a-zA-Z]{2,}$\<close>\<close>

definition email_pattern :: regex where
  "email_pattern =
     Cat (Some1 (Class (\<lambda>c. is_alnum c \<or> c \<in> set ''._%+-'')))
    (Cat (Lit CHR ''@'')
    (Cat (Some1 (Class (\<lambda>c. is_alnum c \<or> c \<in> set ''.-'')))
    (Cat (Lit CHR ''.'')
    (Cat (Class is_alpha) (Cat (Class is_alpha) (Repeat (Class is_alpha)))))))"

definition validate_email :: "string \<Rightarrow> bool \<times> string" where
  "validate_email email0 =
     (if email0 = [] then (False, [])
      else
        let email = lower (strip email0)
        in if matches email_pattern email then (True, email) else (False, email))"

text \<open>\<open>url_pattern = ^(http|https)://[a-zA-Z0-9.-]+\.[a-zA-Z]{2,}(/.*)?$\<close>\<close>

definition url_pattern :: regex where
  "url_pattern =
     Cat (Either (Literal ''http'') (Literal ''https''))
    (Cat (Literal ''://'')
    (Cat (Some1 (Class (\<lambda>c. is_alnum c \<or> c \<in> set ''.-'')))
    (Cat (Lit CHR ''.'')
    (Cat (Class is_alpha) (Cat (Class is_alpha) (Cat (Repeat (Class is_alpha))
         (Optional (Cat (Lit CHR ''/'') (Repeat Dot)))))))))"

definition validate_url :: "string \<Rightarrow> bool \<times> string" where
  "validate_url url0 =
     (if url0 = [] then (False, [])
      else
        let u = strip url0;
            url = (if \<not> (startswith u ''http://'' \<or> startswith u ''https://'')
                   then ''http://'' @ u else u)
        in if matches url_pattern url then (True, url) else (False, url))"

text \<open>
  \<open>re.search(r'\$?(\d+(?:\.\d{2})?)', price)\<close>: the leftmost match starts at the first digit
  of the string, or at a dollar sign right before it; group 1 is the longest run of
  digits from there, with the point and the two digits after it when they follow.
\<close>

definition price_group :: "string \<Rightarrow> string option" where
  "price_group price =
     (let s = dropWhile (\<lambda>c. \<not> is_digit c) price;
          whole = takeWhile is_digit s;
          after = dropWhile is_digit s
      in if whole = [] then None
         else if startswith after ''.'' \<and> length (take 2 (drop 1 after)) = 2
                 \<and> list_all is_digit (take 2 (drop 1 after))
           then Some (whole @ take 3 after)
         else Some whole)"

definition validate_price :: "string \<Rightarrow> bool \<times> string" where
  "validate_price price =
     (if price = [] then (False, [])
      else case price_group price of
             Some g \<Rightarrow> (True, g)
           | None \<Rightarrow> (False, price))"

subsection \<open>Addresses\<close>

text \<open>
  \<open>address_pattern1 = ^\d+\s+[\w\s]+,\s+[\w\s]+\s+[A-Z]{2,3}\s+\d{4,5}$\<close> and
  \<open>address_pattern2 = ^Cnr\s+[\w\s]+\s+&\s+[\w\s]+,\s+[\w\s]+\s+[A-Z]{2,3}\s+\d{4,5}$\<close>
  share everything from the comma on.
\<close>

definition word_or_space :: "char \<Rightarrow> bool" where
  "word_or_space c = (is_word c \<or> is_space c)"

definition spaces1 :: regex where
  "spaces1 = Some1 (Class is_space)"

definition words1 :: regex where
  "words1 = Some1 (Class word_or_space)"

definition state_code :: regex where
  "state_code = Cat (Class is_upper) (Cat (Class is_upper) (Optional (Class is_upper)))"

definition postcode_digits :: regex where
  "postcode_digits =
     Cat (Class is_digit) (Cat (Class is_digit) (Cat (Class is_digit) (Cat (Class is_digit)
         (Optional (Class is_digit)))))"

definition address_tail :: regex where
  "address_tail =
     Cat spaces1 (Cat words1 (Cat spaces1 (Cat state_code (Cat spaces1 postcode_digits))))"

definition address_head1 :: regex where
  "address_head1 = Cat (Some1 (Class is_digit)) (Cat spaces1 words1)"

definition address_head2 :: regex where
  "address_head2 =
     Cat (Literal ''Cnr'')
    (Cat spaces1 (Cat words1 (Cat spaces1 (Cat (Lit CHR ''&'') (Cat spaces1 words1)))))"

definition address_pattern1 :: regex where
  "address_pattern1 = Cat address_head1 (Cat (Lit CHR '','') address_tail)"

definition address_pattern2 :: regex where
  "address_pattern2 = Cat address_head2 (Cat (Lit CHR '','') address_tail)"

definition au_states :: "string list" where
  "au_states = [''NSW'', ''VIC'', ''QLD'', ''SA'', ''WA'', ''TAS'', ''NT'', ''ACT'']"

text \<open>
  \<open>unit_pattern = ^((?:Unit\s+)?[\dA-Za-z]+[\/\\])(\d+(?:[A-Za-z])?)\s+(.+)$\<close>, as a pattern
  and as the function \<open>unit_match\<close> that returns its groups 2 and 3 on the stripped
  address. Each greedy piece of the pattern ends where the next character is outside its
  class, so backtracking finds no other split: \<open>Unit\<close> and its white space when they are
  there, the longest run of letters and digits, a slash or backslash, the longest run of
  digits, one letter when one follows, the longest run of white space, and the rest of
  the string, which has to be non-empty and free of line feeds. (After white space the
  rest is empty only when the string ends in white space, which a stripped string does
  not.) On such strings \<open>unit_match\<close> accepts exactly the language of \<open>unit_pattern\<close>
  (\<open>unit_match_sound\<close>, \<open>unit_match_complete\<close>).
\<close>

definition slash :: "char \<Rightarrow> bool" where
  "slash c = (c = CHR ''/'' \<or> c = CHR 0x5C)"

definition unit_pattern :: regex where
  "unit_pattern =
     Cat (Optional (Cat (Literal ''Unit'') spaces1))
    (Cat (Some1 (Class is_alnum))
    (Cat (Class slash)
    (Cat (Some1 (Class is_digit))
    (Cat (Optional (Class is_alpha))
    (Cat spaces1 (Some1 Dot))))))"

definition unit_match :: "string \<Rightarrow> (string \<times> string) option" where
  "unit_match s =
     (let s1 = (if startswith s ''Unit'' \<and> takeWhile is_space (drop 4 s) \<noteq> []
                then dropWhile is_space (drop 4 s) else s);
          unit = takeWhile is_alnum s1;
          s2 = dropWhile is_alnum s1
      in if unit = [] then None
         else case s2 of
           [] \<Rightarrow> None
         | sl # s3 \<Rightarrow>
             if sl \<noteq> CHR ''/'' \<and> sl \<noteq> CHR 0x5C then None
             else
               let digits = takeWhile is_digit s3;
                   s4 = dropWhile is_digit s3;
                   letter = (case s4 of [] \<Rightarrow> [] | c # _ \<Rightarrow> if is_alpha c then [c] else []);
                   s5 = drop (length letter) s4;
                   ws = takeWhile is_space s5;
                   rest = dropWhile is_space s5
               in if digits = [] \<or> ws = [] \<or> rest = [] \<or> line_feed \<in> set rest then None
                  else Some (digits @ letter, rest))"

text \<open>
  \<open>re.search(r'\b\d{4}\b', address)\<close>: the leftmost four digits with a word boundary on
  both sides, that is, with no word character right before or right after them.
\<close>

fun search_postcode_from :: "bool \<Rightarrow> string \<Rightarrow> string option" where
  "search_postcode_from prev_word [] = None"
| "search_postcode_from prev_word (c # cs) =
     (if \<not> prev_word \<and> length (take 4 (c # cs)) = 4 \<and> list_all is_digit (take 4 (c # cs))
         \<and> (case drop 4 (c # cs) of [] \<Rightarrow> True | x # _ \<Rightarrow> \<not> is_word x)
      then Some (take 4 (c # cs))
      else search_postcode_from (is_word c) cs)"

definition search_postcode :: "string \<Rightarrow> string option" where
  "search_postcode address = search_postcode_from False address"

text \<open>The first state of \<open>au_states\<close> with \<open>f" {state} " in f" {address} "\<close>.\<close>

definition find_state :: "string \<Rightarrow> string option" where
  "find_state address =
     find (\<lambda>state. contains ('' '' @ address @ '' '') ('' '' @ state @ '' '')) au_states"

text \<open>
  \<open>re.split(f"\\s+{state}\\s+", address)\<close>. \<open>match_separator\<close> matches the separator at the
  start of a string and returns what follows it (both runs of white space are the
  longest ones: a state begins with a letter); \<open>re_split\<close> cuts at the successive leftmost
  matches.
\<close>

definition match_separator :: "string \<Rightarrow> string \<Rightarrow> string option" where
  "match_separator state s =
     (let ws1 = takeWhile is_space s;
          r1 = dropWhile is_space s;
          r2 = drop (length state) r1;
          ws2 = takeWhile is_space r2
      in if ws1 \<noteq> [] \<and> startswith r1 state \<and> ws2 \<noteq> [] then Some (dropWhile is_space r2)
         else None)"

lemma match_separator_shorter:
  "match_separator state s = Some r \<Longrightarrow> length r < length s"
proof -
  assume a: "match_separator state s = Some r"
  let ?r1 = "dropWhile is_space s"
  let ?r2 = "drop (length state) ?r1"
  from a have ws: "takeWhile is_space s \<noteq> []" and r: "r = dropWhile is_space ?r2"
    by (auto simp: match_separator_def Let_def split: if_splits)
  have "length r \<le> length ?r2" unfolding r by (rule length_dropWhile_le)
  also have "\<dots> \<le> length ?r1" by simp
  also have "\<dots> < length s"
  proof -
    have "length (takeWhile is_space s) + length ?r1 = length s"
      by (metis length_append takeWhile_dropWhile_id)
    with ws show ?thesis by (cases "takeWhile is_space s") auto
  qed
  finally show ?thesis .
qed

function re_split_from :: "string \<Rightarrow> string \<Rightarrow> string \<Rightarrow> string list" where
  "re_split_from state acc s =
     (case match_separator state s of
        Some r \<Rightarrow> rev acc # re_split_from state [] r
      | None \<Rightarrow> (case s of [] \<Rightarrow> [rev acc] | c # cs \<Rightarrow> re_split_from state (c # acc) cs))"
  by pat_completeness auto
termination
  by (relation "measure (\<lambda>(state, acc, s). length s)")
    (auto dest: match_separator_shorter)

definition re_split :: "string \<Rightarrow> string \<Rightarrow> string list" where
  "re_split state address = re_split_from state [] address"

text \<open>\<open>s.rsplit(' ', 1)\<close>: the two parts around the last space, when there is a space.\<close>

definition rsplit_space :: "string \<Rightarrow> (string \<times> string) option" where
  "rsplit_space s =
     (if CHR '' '' \<in> set s
      then Some (rev (drop 1 (dropWhile (\<lambda>c. c \<noteq> CHR '' '') (rev s))),
                 rev (takeWhile (\<lambda>c. c \<noteq> CHR '' '') (rev s)))
      else None)"

definition matches_address :: "string \<Rightarrow> bool" where
  "matches_address a = (matches address_pattern1 a \<or> matches address_pattern2 a)"

text \<open>The best-effort rebuild of \<open>validate_address\<close>: the \<open>formatted_address\<close> it tries.\<close>

definition rebuild_address :: "string \<Rightarrow> string \<Rightarrow> string \<Rightarrow> string option" where
  "rebuild_address address state postcode =
     (let parts = re_split state address
      in if length parts \<noteq> 2 then None
         else
           let street_part0 = strip (hd parts);
               street_part =
                 (if CHR '','' \<notin> set street_part0 then
                    (case rsplit_space street_part0 of
                       Some (street, suburb) \<Rightarrow> strip street @ '', '' @ strip suburb
                     | None \<Rightarrow> street_part0)
                  else street_part0)
           in Some (street_part @ '', '' @ state @ '' '' @ postcode))"

definition validate_address :: "string \<Rightarrow> bool \<times> string" where
  "validate_address address0 =
     (if address0 = [] then (False, [])
      else
        let stripped = strip address0;
            address = (case unit_match stripped of
                         Some (building_number, rest_of_address) \<Rightarrow>
                           building_number @ '' '' @ rest_of_address
                       | None \<Rightarrow> stripped)
        in
          if matches_address address then (True, address)
          else case (search_postcode address, find_state address) of
                 (Some postcode, Some state) \<Rightarrow>
                   (case rebuild_address address state postcode of
                      None \<Rightarrow> (False, address)
                    | Some formatted_address \<Rightarrow>
                        if matches_address formatted_address then (True, formatted_address)
                        else (False, address))
               | _ \<Rightarrow> (False, address))"

section \<open>Fetching pages (\<open>WebScraper\<close>)\<close>

text \<open>
  \<open>urllib.parse.urlparse\<close> is a library function: the functions that call it take it as
  the parameter \<open>urlparse\<close>, which returns the scheme and the network location of a URL,
  or nothing where the library raises \<open>ValueError\<close>.
\<close>

record url_parts =
  scheme :: string
  netloc :: string

datatype error = ValueError | KeyError

text \<open>
  For the concrete inputs below, a plain reading of the library function: the scheme is
  what precedes the first colon when that begins with a letter and consists of letters,
  digits, \<open>+\<close>, \<open>-\<close> and \<open>.\<close>; the network location is what follows \<open>//\<close> up to the
  first \<open>/\<close>, \<open>?\<close> or \<open>#\<close>.
\<close>

definition urlparse_plain :: "string \<Rightarrow> url_parts option" where
  "urlparse_plain url =
     (let pre = takeWhile (\<lambda>c. c \<noteq> CHR '':'') url;
          has_scheme = (CHR '':'' \<in> set url \<and> pre \<noteq> [] \<and> is_alpha (hd pre)
                        \<and> list_all (\<lambda>c. is_alnum c \<or> c \<in> set ''+-.'') pre);
          rest = (if has_scheme then drop (length pre + 1) url else url)
      in Some \<lparr>scheme = (if has_scheme then lower pre else []),
               netloc = (if startswith rest ''//''
                         then takeWhile (\<lambda>c. c \<notin> set ''/?#'') (drop 2 rest) else [])\<rparr>)"

definition is_valid_url :: "(string \<Rightarrow> url_parts option) \<Rightarrow> string \<Rightarrow> bool" where
  "is_valid_url urlparse url =
     (if url = [] then False
      else case urlparse url of
             None \<Rightarrow> False
           | Some result \<Rightarrow> scheme result \<noteq> [] \<and> netloc result \<noteq> [])"

text \<open>
  The outcome of one \<open>session.get\<close>: a response with its status code and body, or a
  \<open>requests.RequestException\<close>. A session gives the outcome of the GET number \<open>k\<close>, counted
  from 0. The trace of a call counts the GETs issued and lists the delays slept.
\<close>

datatype response = Status nat string | RequestException

record fetch_trace =
  gets :: nat
  slept :: "nat list"

function fetch_loop ::
  "(nat \<Rightarrow> response) \<Rightarrow> nat \<Rightarrow> nat \<Rightarrow> fetch_trace \<Rightarrow> (bool \<times> string option) \<times> fetch_trace" where
  "fetch_loop session max_retries retries t =
     (if retries < max_retries then
        (case session (gets t) of
           Status status_code body \<Rightarrow>
             if status_code = 200 then ((True, Some body), t\<lparr>gets := gets t + 1\<rparr>)
             else if status_code = 404 then ((False, None), t\<lparr>gets := gets t + 1\<rparr>)
             else fetch_loop session max_retries (retries + 1)
                    (t\<lparr>gets := gets t + 1, slept := slept t @ [2 * (retries + 1)]\<rparr>)
         | RequestException \<Rightarrow>
             fetch_loop session max_retries (retries + 1)
               (t\<lparr>gets := gets t + 1, slept := slept t @ [2 * (retries + 1)]\<rparr>))
      else ((False, None), t))"
  by pat_completeness auto
termination
  by (relation "measure (\<lambda>(session, max_retries, retries, t). max_retries - retries)") auto

declare fetch_loop.simps [simp del]

definition fetch_url ::
  "(string \<Rightarrow> url_parts option) \<Rightarrow> (nat \<Rightarrow> response) \<Rightarrow> string \<Rightarrow> nat
     \<Rightarrow> (bool \<times> string option) \<times> fetch_trace" where
  "fetch_url urlparse session url max_retries =
     (if \<not> is_valid_url urlparse url then ((False, None), \<lparr>gets = 0, slept = []\<rparr>)
      else fetch_loop session max_retries 0 \<lparr>gets = 0, slept = []\<rparr>)"

text \<open>An outcome that is neither a 200 nor a 404: the loop tries again after it.\<close>

definition retried :: "response \<Rightarrow> bool" where
  "retried r = (case r of
                  Status status_code body \<Rightarrow> status_code \<noteq> 200 \<and> status_code \<noteq> 404
                | RequestException \<Rightarrow> True)"

text \<open>
  \<open>s.replace(old, new)\<close>: every occurrence of \<open>old\<close>, leftmost first and without
  overlap, becomes \<open>new\<close> (with an empty \<open>old\<close>, \<open>new\<close> goes before every character and
  at the end).
\<close>

lemma startswith_drop_shorter:
  "old \<noteq> [] \<Longrightarrow> startswith s old \<Longrightarrow> length (drop (length old) s) < length s"
  by (cases s) (auto simp: startswith_def)

function replace :: "string \<Rightarrow> string \<Rightarrow> string \<Rightarrow> string" where
  "replace s old new =
     (if old = [] then new @ concat (map (\<lambda>c. c # new) s)
      else if startswith s old then new @ replace (drop (length old) s) old new
      else case s of [] \<Rightarrow> [] | c # cs \<Rightarrow> c # replace cs old new)"
  by pat_completeness auto
termination
  by (relation "measure (\<lambda>(s, old, new). length s)") (auto dest: startswith_drop_shorter)

declare replace.simps [simp del]

definition is_same_domain ::
  "(string \<Rightarrow> url_parts option) \<Rightarrow> string \<Rightarrow> string \<Rightarrow> error + bool" where
  "is_same_domain urlparse url1 url2 =
     (case urlparse url1 of
        None \<Rightarrow> Inl ValueError
      | Some result1 \<Rightarrow>
          (case urlparse url2 of
             None \<Rightarrow> Inl ValueError
           | Some result2 \<Rightarrow>
               Inr (replace (netloc result1) ''www.'' [] = replace (netloc result2) ''www.'' [])))"

text \<open>
  Following the spec's words: a host string with a leading \<open>www.\<close> removed, and from
  nowhere else.
\<close>

definition without_leading_www :: "string \<Rightarrow> string" where
  "without_leading_www host = (if startswith host ''www.'' then drop 4 host else host)"

section \<open>Reconciliation (\<open>DataFormatter\<close>)\<close>

text \<open>
  A cell of the table holds a string or is \<open>NaN\<close>, the value pandas gives an empty cell
  of the spreadsheet. A row maps the names of its columns to cells, and a frame is the
  list of its rows, indexed from 0 as \<open>pd.read_excel\<close> indexes them; all rows of a frame
  have the same columns. \<open>truthy\<close> is Python's truth value (\<open>NaN\<close> is a float other than
  zero, so it is true) and \<open>str_of\<close> is \<open>str\<close>.
\<close>

datatype cell = NaN | Str string

type_synonym row = "string \<Rightarrow> cell option"

type_synonym frame = "row list"

definition truthy :: "cell \<Rightarrow> bool" where
  "truthy c = (case c of NaN \<Rightarrow> True | Str s \<Rightarrow> s \<noteq> [])"

definition str_of :: "cell \<Rightarrow> string" where
  "str_of c = (case c of NaN \<Rightarrow> ''nan'' | Str s \<Rightarrow> s)"

text \<open>
  What the extraction returns for one practice: a dictionary, here a record whose absent
  or empty entries are the empty string (the code tests each entry for truth before it
  uses it) and whose \<open>error\<close> is there or not; or a list of such dictionaries.
  \<open>psych_name\<close> and \<open>psych_type\<close> are the keys \<open>name\<close> and \<open>type\<close> of a psychologist,
  \<open>initial_consult\<close> and \<open>followup_consult\<close> the keys of \<open>pricing_info\<close>.
\<close>

record psychologist =
  psych_name :: string
  psych_type :: string

record candidate =
  error :: "string option"
  email :: string
  doctor_page_url :: string
  initial_consult :: string
  followup_consult :: string
  psychologists :: "psychologist list"

datatype extracted = Single candidate | Many "candidate list"

type_synonym discrepancy = "nat \<times> string"

definition quote :: string where
  "quote = [CHR 0x27]"

definition flag_discrepancies :: "row \<Rightarrow> (string \<Rightarrow> string option) \<Rightarrow> string \<Rightarrow> bool \<times> string" where
  "flag_discrepancies existing_data new_data field =
     (case existing_data field of
        None \<Rightarrow> (False, [])
      | Some existing_value \<Rightarrow>
          (case new_data field of
             None \<Rightarrow> (False, [])
           | Some new_value \<Rightarrow>
               if \<not> truthy existing_value \<or> new_value = [] then (False, [])
               else if strip (str_of existing_value) \<noteq> strip new_value then
                 (True, ''Discrepancy in '' @ field @ '': '' @ quote @ str_of existing_value
                          @ quote @ '' vs '' @ quote @ new_value @ quote)
               else (False, [])))"

definition required_columns :: "string list" where
  "required_columns = [''Name'', ''Email'', ''Doctors'', ''Type'', ''Initial Consult'',
     ''Follow-up Consult'', ''Date'', ''Notes'']"

text \<open>The required columns that a frame does not have are created, empty (seen row by row).\<close>

definition ensure_columns :: "row \<Rightarrow> row" where
  "ensure_columns r =
     fold (\<lambda>col r'. if r' col = None then r'(col \<mapsto> Str []) else r') required_columns r"

text \<open>The first pass: every phone that is there and valid is replaced by its formatted form.\<close>

definition format_phone :: "row \<Rightarrow> row" where
  "format_phone r =
     (case r ''Phone'' of
        Some (Str phone) \<Rightarrow>
          if phone \<noteq> [] \<and> fst (validate_phone phone)
          then r(''Phone'' \<mapsto> Str (snd (validate_phone phone))) else r
      | _ \<Rightarrow> r)"

text \<open>
  The head of the loop body: the row is left alone when its practice is empty, \<open>NaN\<close> or
  not a key of the extracted data; a list stands for its first element, an empty list for
  an error; a dictionary with the key \<open>error\<close> is a failed extraction.
\<close>

datatype lookup = Skip | Failed string | Found candidate

definition lookup_candidate :: "(string \<Rightarrow> extracted option) \<Rightarrow> row \<Rightarrow> lookup" where
  "lookup_candidate extracted_data r =
     (case r ''Practice'' of
        Some (Str practice_name) \<Rightarrow>
          if practice_name = [] then Skip
          else (case extracted_data practice_name of
                  None \<Rightarrow> Skip
                | Some (Single practice_data) \<Rightarrow>
                    (case error practice_data of
                       Some e \<Rightarrow> Failed e | None \<Rightarrow> Found practice_data)
                | Some (Many []) \<Rightarrow> Failed ''Empty list for practice data''
                | Some (Many (practice_data # _)) \<Rightarrow>
                    (case error practice_data of
                       Some e \<Rightarrow> Failed e | None \<Rightarrow> Found practice_data))
      | _ \<Rightarrow> Skip)"

text \<open>
  One field of the existing row receives a new value: the discrepancy with the row as the
  loop read it is recorded first, then the value is written into the updated frame.
\<close>

definition write_field ::
  "nat \<Rightarrow> row \<Rightarrow> string \<Rightarrow> string \<Rightarrow> row \<times> discrepancy list \<Rightarrow> row \<times> discrepancy list" where
  "write_field idx r field v st =
     (case st of (updated, discrepancies) \<Rightarrow>
        (updated(field \<mapsto> Str v),
         if fst (flag_discrepancies r [field \<mapsto> v] field)
         then discrepancies @ [(idx, snd (flag_discrepancies r [field \<mapsto> v] field))]
         else discrepancies))"

text \<open>A field that is written only when the candidate has it and the validator accepts it.\<close>

definition write_validated ::
  "(string \<Rightarrow> bool \<times> string) \<Rightarrow> nat \<Rightarrow> row \<Rightarrow> string \<Rightarrow> string
     \<Rightarrow> row \<times> discrepancy list \<Rightarrow> row \<times> discrepancy list" where
  "write_validated validate idx r field raw st =
     (if raw \<noteq> [] \<and> fst (validate raw) then write_field idx r field (snd (validate raw)) st
      else st)"

text \<open>
  The row of one more psychologist: a copy of the row as the loop read it, with the name,
  the valid type, the valid doctor page URL, the valid email and the date.
\<close>

definition new_row_for :: "string \<Rightarrow> row \<Rightarrow> candidate \<Rightarrow> psychologist \<Rightarrow> row" where
  "new_row_for today r practice_data psych =
     (let r1 = (if psych_name psych \<noteq> [] then r(''Name'' \<mapsto> Str (psych_name psych)) else r);
          r2 = (if psych_type psych \<noteq> [] \<and> fst (validate_psychologist_type (psych_type psych))
                then r1(''Type'' \<mapsto> Str (snd (validate_psychologist_type (psych_type psych))))
                else r1);
          r3 = (if doctor_page_url practice_data \<noteq> []
                   \<and> fst (validate_url (doctor_page_url practice_data))
                then r2(''Doctors'' \<mapsto> Str (snd (validate_url (doctor_page_url practice_data))))
                else r2);
          r4 = (if email practice_data \<noteq> [] \<and> fst (validate_email (email practice_data))
                then r3(''Email'' \<mapsto> Str (snd (validate_email (email practice_data))))
                else r3)
      in r4(''Date'' \<mapsto> Str today))"

text \<open>
  The loop body for the row \<open>r\<close> at index \<open>idx\<close>: the updated row, the new rows and the
  discrepancies it adds. \<open>iterrows\<close> hands the body the row as a series of its own, which
  the model takes as the row at the start of the iteration; the body reads each field of
  it before it writes that field into the frame.
\<close>

definition process_row ::
  "string \<Rightarrow> (string \<Rightarrow> extracted option) \<Rightarrow> nat \<Rightarrow> row
     \<Rightarrow> row \<times> row list \<times> discrepancy list" where
  "process_row today extracted_data idx r =
     (case lookup_candidate extracted_data r of
        Skip \<Rightarrow> (r, [], [])
      | Failed e \<Rightarrow> (r(''Notes'' \<mapsto> Str (''Extraction error: '' @ e)), [], [])
      | Found practice_data \<Rightarrow>
          (let st1 = write_validated validate_email idx r ''Email'' (email practice_data) (r, []);
               st2 = write_validated validate_url idx r ''Doctors''
                       (doctor_page_url practice_data) st1;
               st3 = write_validated validate_price idx r ''Initial Consult''
                       (initial_consult practice_data) st2;
               st4 = write_validated validate_price idx r ''Follow-up Consult''
                       (followup_consult practice_data) st3;
               st5 = (case st4 of (updated, discrepancies) \<Rightarrow>
                        (updated(''Date'' \<mapsto> Str today), discrepancies))
           in case psychologists practice_data of
                [] \<Rightarrow>
                  (case st5 of (updated, discrepancies) \<Rightarrow>
                     (updated(''Notes'' \<mapsto> Str ''No psychologists found''), [], discrepancies))
              | first_psych # others \<Rightarrow>
                  (let st6 = (if psych_name first_psych \<noteq> []
                              then write_field idx r ''Name'' (psych_name first_psych) st5
                              else st5);
                       st7 = write_validated validate_psychologist_type idx r ''Type''
                               (psych_type first_psych) st6
                   in (fst st7, map (new_row_for today r practice_data) others, snd st7))))"

text \<open>The loop over the rows, in index order.\<close>

fun process_rows ::
  "string \<Rightarrow> (string \<Rightarrow> extracted option) \<Rightarrow> nat \<Rightarrow> row list
     \<Rightarrow> row list \<times> row list \<times> discrepancy list" where
  "process_rows today extracted_data idx [] = ([], [], [])"
| "process_rows today extracted_data idx (r # rs) =
     (case process_row today extracted_data idx r of (updated, new_rows, discrepancies) \<Rightarrow>
        (case process_rows today extracted_data (idx + 1) rs of
           (updated_rest, new_rows_rest, discrepancies_rest) \<Rightarrow>
             (updated # updated_rest, new_rows @ new_rows_rest,
              discrepancies @ discrepancies_rest)))"

text \<open>
  \<open>format_data_for_excel\<close>; \<open>today\<close> is the date that \<open>datetime.now\<close> gives. The first
  statement reads \<open>df['Practice']\<close> and raises \<open>KeyError\<close> on a frame without that column.
\<close>

definition format_data_for_excel ::
  "string \<Rightarrow> frame \<Rightarrow> (string \<Rightarrow> extracted option)
     \<Rightarrow> error + (frame \<times> row list \<times> discrepancy list)" where
  "format_data_for_excel today df extracted_data =
     (if \<not> list_all (\<lambda>r. r ''Practice'' \<noteq> None) df then Inl KeyError
      else Inr (process_rows today extracted_data 0 (map (format_phone \<circ> ensure_columns) df)))"

text \<open>
  The staff list that the loop body works on for a row, the new rows it adds for it, and
  the columns it may write in the existing row.
\<close>

definition staff :: "(string \<Rightarrow> extracted option) \<Rightarrow> row \<Rightarrow> psychologist list" where
  "staff extracted_data r =
     (case lookup_candidate extracted_data r of Found practice_data \<Rightarrow> psychologists practice_data | _ \<Rightarrow> [])"

definition clones :: "string \<Rightarrow> (string \<Rightarrow> extracted option) \<Rightarrow> row \<Rightarrow> row list" where
  "clones today ed r =
     (case lookup_candidate ed r of
        Found practice_data \<Rightarrow> map (new_row_for today r practice_data) (tl (psychologists practice_data))
      | _ \<Rightarrow> [])"

definition written_columns :: "string list" where
  "written_columns = [''Email'', ''Doctors'', ''Initial Consult'', ''Follow-up Consult'',
     ''Date'', ''Notes'', ''Name'', ''Type'']"

text \<open>
  The frame and the extracted data of the repository's own test of the formatter
  (\<open>test_stage4.py\<close>), and the same practice with a failed extraction.
\<close>

definition wisemind_row :: row where
  "wisemind_row = map_of
     [(''Practice'', Str ''Wisemind Psychology''),
      (''Address'', Str ''Unit 2/40 Minchinton St, Caloundra QLD 4551''),
      (''Website'', Str ''http://www.wisemind.com.au''),
      (''Phone'', Str ''0490193347''),
      (''Name'', Str []), (''Email'', Str []), (''Doctors'', Str []), (''Type'', Str []),
      (''Initial Consult'', Str []), (''Follow-up Consult'', Str []), (''Date'', Str []),
      (''Notes'', Str [])]"

definition wisemind_candidate :: candidate where
  "wisemind_candidate =
     \<lparr>error = None, email = ''admin@wisemind.com.au'',
      doctor_page_url = ''http://www.wisemind.com.au/our-team/'',
      initial_consult = ''$220'', followup_consult = ''$180'',
      psychologists =
        [\<lparr>psych_name = ''Melissa Madden'', psych_type = ''C''\<rparr>,
         \<lparr>psych_name = ''Danielle Comerford'', psych_type = ''G''\<rparr>,
         \<lparr>psych_name = ''Rachel Hannam'', psych_type = ''G''\<rparr>]\<rparr>"

definition wisemind_data :: "string \<Rightarrow> extracted option" where
  "wisemind_data = [''Wisemind Psychology'' \<mapsto> Single wisemind_candidate]"

definition wisemind_failed :: "string \<Rightarrow> extracted option" where
  "wisemind_failed = [''Wisemind Psychology'' \<mapsto> Single (wisemind_candidate\<lparr>error := Some ''no response''\<rparr>)]"

text \<open>
  Following the spec's words: the shape \<open>^(Unit )?\d+[A-Za-z]?[/\\]\d+[A-Za-z]? .+$\<close> that the
  spec gives for the addresses whose unit prefix is stripped, in three parts: the unit
  with its slash, the building number, and the space with the rest.
\<close>

definition unit_prefix_shape :: regex where
  "unit_prefix_shape =
     Cat (Optional (Literal ''Unit ''))
    (Cat (Some1 (Class is_digit)) (Cat (Optional (Class is_alpha)) (Class slash)))"

definition building_number_shape :: regex where
  "building_number_shape = Cat (Some1 (Class is_digit)) (Optional (Class is_alpha))"

definition unit_address_shape :: regex where
  "unit_address_shape =
     Cat unit_prefix_shape (Cat building_number_shape (Cat (Lit CHR '' '') (Some1 Dot)))"

section \<open>Properties\<close>

subsection \<open>The matcher decides the language of a pattern\<close>

lemma nil_in_cat_lang: "[] \<in> cat_lang A B \<longleftrightarrow> [] \<in> A \<and> [] \<in> B"
  by (auto simp: cat_lang_def)

lemma matches_empty_language: "matches_empty r \<longleftrightarrow> [] \<in> language r"
  by (induction r) (auto simp: nil_in_cat_lang intro: repeat_nil)

lemma cat_lang_empty [simp]: "cat_lang {} B = {}" "cat_lang A {} = {}"
  by (auto simp: cat_lang_def)

lemma cat_lang_unit [simp]: "cat_lang {[]} B = B"
  by (auto simp: cat_lang_def)

lemma language_either: "language (either r s) = language r \<union> language s"
  by (induction r s rule: either.induct) auto

lemma language_cat: "language (cat r s) = cat_lang (language r) (language s)"
  by (induction r s rule: cat.induct) auto


lemma left_quotient_cat:
  "left_quotient c (cat_lang A B) =
     cat_lang (left_quotient c A) B \<union> (if [] \<in> A then left_quotient c B else {})"
proof -
  have "c # w \<in> cat_lang A B \<longleftrightarrow>
      (\<exists>u v. w = u @ v \<and> c # u \<in> A \<and> v \<in> B) \<or> ([] \<in> A \<and> c # w \<in> B)" for w
  proof
    assume "c # w \<in> cat_lang A B"
    then obtain u v where uv: "c # w = u @ v" "u \<in> A" "v \<in> B"
      by (auto simp: cat_lang_def)
    show "(\<exists>u v. w = u @ v \<and> c # u \<in> A \<and> v \<in> B) \<or> ([] \<in> A \<and> c # w \<in> B)"
    proof (cases u)
      case Nil
      with uv show ?thesis by simp
    next
      case (Cons a u')
      with uv show ?thesis by auto
    qed
  next
    assume "(\<exists>u v. w = u @ v \<and> c # u \<in> A \<and> v \<in> B) \<or> ([] \<in> A \<and> c # w \<in> B)"
    then show "c # w \<in> cat_lang A B"
    proof
      assume "\<exists>u v. w = u @ v \<and> c # u \<in> A \<and> v \<in> B"
      then obtain u v where "w = u @ v" "c # u \<in> A" "v \<in> B" by blast
      then have "c # w = (c # u) @ v \<and> c # u \<in> A \<and> v \<in> B" by simp
      then show ?thesis unfolding cat_lang_def by blast
    next
      assume "[] \<in> A \<and> c # w \<in> B"
      then have "c # w = [] @ (c # w) \<and> [] \<in> A \<and> c # w \<in> B" by simp
      then show ?thesis unfolding cat_lang_def by blast
    qed
  qed
  then show ?thesis
    by (auto simp: left_quotient_def cat_lang_def)
qed

lemma repeat_lang_split:
  "x \<in> repeat_lang A \<Longrightarrow> x = c # w \<Longrightarrow> \<exists>u v. w = u @ v \<and> c # u \<in> A \<and> v \<in> repeat_lang A"
proof (induction arbitrary: w rule: repeat_lang.induct)
  case repeat_nil
  then show ?case by simp
next
  case (repeat_more u v)
  show ?case
  proof (cases u)
    case Nil
    with repeat_more show ?thesis by simp
  next
    case (Cons a u')
    with repeat_more.prems have "a = c" "w = u' @ v" by simp_all
    with Cons repeat_more.hyps show ?thesis by blast
  qed
qed

lemma left_quotient_repeat:
  "left_quotient c (repeat_lang A) = cat_lang (left_quotient c A) (repeat_lang A)"
proof
  show "left_quotient c (repeat_lang A) \<subseteq> cat_lang (left_quotient c A) (repeat_lang A)"
    using repeat_lang_split [of _ A c]
    by (fastforce simp: left_quotient_def cat_lang_def)
next
  show "cat_lang (left_quotient c A) (repeat_lang A) \<subseteq> left_quotient c (repeat_lang A)"
  proof
    fix w assume "w \<in> cat_lang (left_quotient c A) (repeat_lang A)"
    then obtain u v where "w = u @ v" "c # u \<in> A" "v \<in> repeat_lang A"
      by (auto simp: cat_lang_def left_quotient_def)
    then have "(c # u) @ v \<in> repeat_lang A" by (intro repeat_more)
    with \<open>w = u @ v\<close> show "w \<in> left_quotient c (repeat_lang A)"
      by (simp add: left_quotient_def)
  qed
qed

lemma language_residual: "language (residual c r) = left_quotient c (language r)"
proof (induction r)
  case (Cat r s)
  then show ?case
    by (simp add: language_either language_cat left_quotient_cat matches_empty_language)
next
  case (Repeat r)
  then show ?case by (simp add: language_cat left_quotient_repeat)
qed (auto simp: left_quotient_def language_either)

lemma language_residuals: "w \<in> language (residuals r s) \<longleftrightarrow> s @ w \<in> language r"
  by (induction s arbitrary: r) (auto simp: language_residual left_quotient_def)

lemma matches_language: "matches r s \<longleftrightarrow> s \<in> language r"
  by (simp add: matches_def matches_empty_language language_residuals)

subsection \<open>Addresses: the rebuilt address never matches\<close>

text \<open>
  Both address patterns end in a comma followed by \<open>address_tail\<close>, whose words have no
  comma and at least three white-space characters. The rebuilt address ends in a comma, a
  space, the state, a space and the postcode: two white-space characters after its last
  comma. So the second test of \<open>validate_address\<close> never succeeds, and the function
  returns the address it had before the rebuild.
\<close>

lemmas cls = is_digit_def is_space_def is_upper_def is_lower_def is_alpha_def is_alnum_def is_word_def word_or_space_def

lemma repeat_class: "w \<in> repeat_lang {[c] |c. p c} \<Longrightarrow> list_all p w"
  by (induction rule: repeat_lang.induct) auto

lemma some1_class:
  "w \<in> language (Some1 (Class p)) \<Longrightarrow> w \<noteq> [] \<and> list_all p w"
  by (auto simp: Some1_def cat_lang_def dest: repeat_class)

lemma cat_langE:
  assumes "w \<in> language (Cat r s)"
  obtains u v where "w = u @ v" "u \<in> language r" "v \<in> language s"
  using assms by (auto simp: cat_lang_def)

lemma language_classes:
  "w \<in> language r \<Longrightarrow> c \<in> set w \<Longrightarrow> \<exists>p\<in>classes r. p c"
proof (induction r arbitrary: w)
  case (Cat r s)
  from Cat.prems(1) obtain u v where "w = u @ v" "u \<in> language r" "v \<in> language s"
    by (auto simp: cat_lang_def)
  with Cat.prems(2) consider "u \<in> language r" "c \<in> set u" | "v \<in> language s" "c \<in> set v"
    by auto
  then show ?case
  proof cases
    case 1
    from Cat.IH(1) [OF 1] show ?thesis by auto
  next
    case 2
    from Cat.IH(2) [OF 2] show ?thesis by auto
  qed
next
  case (Repeat r)
  have "x \<in> repeat_lang (language r) \<Longrightarrow> c \<in> set x \<Longrightarrow> \<exists>p\<in>classes r. p c" for x
  proof (induction rule: repeat_lang.induct)
    case repeat_nil
    then show ?case by simp
  next
    case (repeat_more u v)
    then show ?case using Repeat.IH [of u] by auto
  qed
  with Repeat.prems show ?case by simp
qed auto


lemma spaces_append [simp]: "spaces (u @ v) = spaces u + spaces v"
  by (simp add: spaces_def)

lemma spaces_spaces1:
  assumes "w \<in> language spaces1" shows "1 \<le> spaces w"
proof -
  from some1_class [OF assms [unfolded spaces1_def]] obtain c cs where "w = c # cs" "is_space c"
    by (cases w) auto
  then show ?thesis by (simp add: spaces_def)
qed

lemma address_tail_shape:
  assumes "t \<in> language address_tail"
  shows "CHR '','' \<notin> set t \<and> 3 \<le> spaces t"
proof
  have "\<forall>p\<in>classes address_tail. \<not> p CHR '',''"
    by (simp add: address_tail_def spaces1_def words1_def state_code_def postcode_digits_def
        Some1_def Optional_def cls)
  with language_classes [OF assms] show "CHR '','' \<notin> set t" by blast
next
  from assms obtain w1 t1 where 1: "t = w1 @ t1" "w1 \<in> language spaces1"
    and t1: "t1 \<in> language (Cat words1 (Cat spaces1 (Cat state_code (Cat spaces1 postcode_digits))))"
    unfolding address_tail_def by (rule cat_langE)
  from t1 obtain x t2 where 2: "t1 = x @ t2"
    and t2: "t2 \<in> language (Cat spaces1 (Cat state_code (Cat spaces1 postcode_digits)))"
    by (rule cat_langE)
  from t2 obtain w2 t3 where 3: "t2 = w2 @ t3" "w2 \<in> language spaces1"
    and t3: "t3 \<in> language (Cat state_code (Cat spaces1 postcode_digits))"
    by (rule cat_langE)
  from t3 obtain u t4 where 4: "t3 = u @ t4"
    and t4: "t4 \<in> language (Cat spaces1 postcode_digits)"
    by (rule cat_langE)
  from t4 obtain w3 d where 5: "t4 = w3 @ d" "w3 \<in> language spaces1"
    by (rule cat_langE)
  show "3 \<le> spaces t"
    using spaces_spaces1 [OF 1(2)] spaces_spaces1 [OF 3(2)] spaces_spaces1 [OF 5(2)]
    by (simp add: 1 2 3 4 5)
qed

lemma address_pattern_shape:
  assumes "matches_address s"
  shows "\<exists>a t. s = a @ CHR '','' # t \<and> CHR '','' \<notin> set t \<and> 3 \<le> spaces t"
proof -
  from assms obtain h where "s \<in> language (Cat h (Cat (Lit CHR '','') address_tail))"
    by (auto simp: matches_address_def matches_language address_pattern1_def
        address_pattern2_def)
  then obtain a r where a: "s = a @ r" and r: "r \<in> language (Cat (Lit CHR '','') address_tail)"
    by (rule cat_langE)
  from r obtain c t where "r = c @ t" "c \<in> language (Lit CHR '','')" "t \<in> language address_tail"
    by (rule cat_langE)
  then have "r = CHR '','' # t" "t \<in> language address_tail"
    by (auto simp: Lit_def)
  with a address_tail_shape show ?thesis by blast
qed

text \<open>The text after the last comma of a string.\<close>

lemma after_last_comma:
  assumes "s = a @ CHR '','' # t" and "CHR '','' \<notin> set t"
  shows "t = rev (takeWhile (\<lambda>c. c \<noteq> CHR '','') (rev s))"
proof -
  have "rev s = rev t @ CHR '','' # rev a" using assms(1) by simp
  moreover have "\<forall>c\<in>set (rev t). c \<noteq> CHR '',''" using assms(2) by auto
  ultimately have "takeWhile (\<lambda>c. c \<noteq> CHR '','') (rev s) = rev t"
    by (simp add: takeWhile_tail)
  then show ?thesis by simp
qed

lemma search_postcode_from_digits:
  "search_postcode_from prev s = Some pc \<Longrightarrow> list_all is_digit pc"
  by (induction prev s rule: search_postcode_from.induct) (auto split: if_splits)

lemma digit_not_special: "is_digit c \<Longrightarrow> \<not> is_space c \<and> c \<noteq> CHR '',''"
  by (auto simp: cls)

lemma digits_plain:
  "list_all is_digit pc \<Longrightarrow> CHR '','' \<notin> set pc \<and> spaces pc = 0"
  by (induction pc) (auto simp: spaces_def dest: digit_not_special)

lemma au_states_plain:
  "state \<in> set au_states \<Longrightarrow> CHR '','' \<notin> set state \<and> spaces state = 0"
  by (auto simp: au_states_def spaces_def cls)

lemma find_state_in: "find_state a = Some state \<Longrightarrow> state \<in> set au_states"
  by (auto simp: find_state_def find_Some_iff)

lemma rebuild_address_shape:
  "rebuild_address a state pc = Some f \<Longrightarrow> \<exists>sp. f = sp @ '', '' @ state @ '' '' @ pc"
  by (auto simp: rebuild_address_def Let_def split: if_splits)

lemma rebuild_never_matches:
  assumes "search_postcode a = Some pc" and "find_state a = Some state"
    and "rebuild_address a state pc = Some f"
  shows "\<not> matches_address f"
proof
  assume "matches_address f"
  then obtain b t where f: "f = b @ CHR '','' # t" and t: "CHR '','' \<notin> set t" "3 \<le> spaces t"
    using address_pattern_shape by blast
  from rebuild_address_shape [OF assms(3)] obtain sp
    where f': "f = sp @ CHR '','' # ('' '' @ state @ '' '' @ pc)" by auto
  have pc: "CHR '','' \<notin> set pc \<and> spaces pc = 0"
    using assms(1) search_postcode_from_digits digits_plain by (auto simp: search_postcode_def)
  have st: "CHR '','' \<notin> set state \<and> spaces state = 0"
    using assms(2) find_state_in au_states_plain by blast
  have "CHR '','' \<notin> set ('' '' @ state @ '' '' @ pc)" using pc st by simp
  from after_last_comma [OF f' this] after_last_comma [OF f t(1)]
  have "t = '' '' @ state @ '' '' @ pc" by simp
  then have "spaces t = 2" using pc st by (simp add: spaces_def cls)
  with t(2) show False by simp
qed

lemma validate_address_result:
  "validate_address s =
     (if s = [] then (False, [])
      else let a = (case unit_match (strip s) of
                      Some (n, r) \<Rightarrow> n @ '' '' @ r | None \<Rightarrow> strip s)
           in (matches_address a, a))"
  using rebuild_never_matches
  by (auto simp: validate_address_def Let_def split: option.splits)

subsection \<open>Addresses: stripping the unit\<close>

lemma takeWhile_run:
  "list_all P xs \<Longrightarrow> ys = [] \<or> \<not> P (hd ys) \<Longrightarrow> takeWhile P (xs @ ys) = xs"
  by (cases ys) (induction xs; auto)+

lemma dropWhile_run:
  "list_all P xs \<Longrightarrow> ys = [] \<or> \<not> P (hd ys) \<Longrightarrow> dropWhile P (xs @ ys) = ys"
  by (cases ys) (induction xs; auto)+

lemma strip_padded:
  assumes "list_all is_space pre" "list_all is_space post"
    and "m \<noteq> []" "\<not> is_space (hd m)" "\<not> is_space (last m)"
  shows "strip (pre @ m @ post) = m"
proof -
  have 1: "lstrip (pre @ m @ post) = m @ post"
    unfolding lstrip_def using assms by (intro dropWhile_run) auto
  have "dropWhile is_space (rev post @ rev m) = rev m"
    using assms by (intro dropWhile_run) (auto simp: hd_rev)
  then show ?thesis by (simp add: strip_def 1 rstrip_def)
qed

lemma cat_langI: "u \<in> A \<Longrightarrow> v \<in> B \<Longrightarrow> u @ v \<in> cat_lang A B"
  by (auto simp: cat_lang_def)

lemma repeat_class_all: "list_all p w \<Longrightarrow> w \<in> repeat_lang {[c] |c. p c}"
proof (induction w)
  case Nil
  show ?case by (rule repeat_nil)
next
  case (Cons c w)
  then have "[c] \<in> {[c] |c. p c}" "w \<in> repeat_lang {[c] |c. p c}" by auto
  then have "[c] @ w \<in> repeat_lang {[c] |c. p c}" by (rule repeat_more)
  then show ?case by simp
qed

lemma some1_class_iff:
  "w \<in> language (Some1 (Class p)) \<longleftrightarrow> w \<noteq> [] \<and> list_all p w"
proof
  assume "w \<in> language (Some1 (Class p))"
  then show "w \<noteq> [] \<and> list_all p w" by (rule some1_class)
next
  assume a: "w \<noteq> [] \<and> list_all p w"
  then obtain c cs where w: "w = c # cs" by (cases w) auto
  with a have "[c] \<in> language (Class p)" "cs \<in> language (Repeat (Class p))"
    by (auto intro: repeat_class_all)
  then have "[c] @ cs \<in> language (Some1 (Class p))"
    unfolding Some1_def language.simps by (rule cat_langI)
  with w show "w \<in> language (Some1 (Class p))" by simp
qed

lemma optional_class_iff:
  "w \<in> language (Optional (Class p)) \<longleftrightarrow> length w \<le> 1 \<and> list_all p w"
  by (cases w) (auto simp: Optional_def)

lemma language_Literal: "language (Literal s) = {s}"
  by (induction s) (auto simp: cat_lang_def Lit_def)

lemma language_Optional: "language (Optional r) = insert [] (language r)"
  by (auto simp: Optional_def)

lemma class_iff: "w \<in> language (Class p) \<longleftrightarrow> (\<exists>c. w = [c] \<and> p c)"
  by auto

lemma alnum_not_space: "is_alnum c \<Longrightarrow> \<not> is_space c"
  by (auto simp: cls)

lemma slash_plain: "slash c \<Longrightarrow> \<not> is_alnum c \<and> \<not> is_space c"
  by (auto simp: slash_def cls)

lemma no_unit_prefix:
  assumes a: "list_all is_alnum a" and sl: "slash sl"
  shows "\<not> (startswith (a @ sl # t) ''Unit'' \<and> takeWhile is_space (drop 4 (a @ sl # t)) \<noteq> [])"
proof
  assume h: "startswith (a @ sl # t) ''Unit'' \<and> takeWhile is_space (drop 4 (a @ sl # t)) \<noteq> []"
  then have t4: "take 4 (a @ sl # t) = ''Unit''"
    by (simp add: startswith_def eval_nat_numeral del: take_append)
  have len: "4 \<le> length a"
  proof (rule ccontr)
    assume "\<not> 4 \<le> length a"
    then have k: "length a < 4" by simp
    then have "take 4 (a @ sl # t) ! length a = (a @ sl # t) ! length a"
      by (intro nth_take)
    then have "take 4 (a @ sl # t) ! length a = sl" by simp
    with t4 have u: "''Unit'' ! length a = sl" by simp
    from k consider "length a = 0" | "length a = 1" | "length a = 2" | "length a = 3"
      by linarith
    then have "is_alnum sl" using u by cases (auto simp: cls)
    with sl show False by (simp add: slash_plain)
  qed
  then have d: "drop 4 (a @ sl # t) = drop 4 a @ sl # t" by simp
  have "\<not> is_space (hd (drop 4 a @ sl # t))"
  proof (cases "drop 4 a")
    case Nil
    then show ?thesis using sl by (simp add: slash_plain)
  next
    case (Cons c cs)
    then have "c \<in> set a" by (metis in_set_dropD list.set_intros(1))
    with a have "is_alnum c" by (simp add: list_all_iff)
    with Cons show ?thesis by (simp add: alnum_not_space)
  qed
  then have "takeWhile is_space (drop 4 (a @ sl # t)) = []"
    unfolding d by (cases "drop 4 a") auto
  with h show False by simp
qed

lemma unit_match_greedy:
  assumes un: "un = [] \<or> (\<exists>w0. un = ''Unit'' @ w0 \<and> w0 \<noteq> [] \<and> list_all is_space w0)"
    and a: "a \<noteq> []" "list_all is_alnum a"
    and sl: "slash sl"
    and d: "d \<noteq> []" "list_all is_digit d"
    and l: "length l \<le> 1" "list_all is_alpha l"
    and w: "w \<noteq> []" "list_all is_space w"
    and rest: "rest \<noteq> []" "\<not> is_space (hd rest)" "line_feed \<notin> set rest"
  shows "unit_match (un @ a @ [sl] @ d @ l @ w @ rest) = Some (d @ l, rest)"
proof -
  let ?s3 = "d @ l @ w @ rest"
  let ?s1 = "a @ [sl] @ ?s3"
  let ?s5 = "w @ rest"
  obtain c a' where a': "a = c # a'" "is_alnum c" using a by (cases a) auto
  obtain x w' where w': "w = x # w'" "is_space x" using w by (cases w) auto
  have s1: "(if startswith (un @ ?s1) ''Unit'' \<and> takeWhile is_space (drop 4 (un @ ?s1)) \<noteq> []
             then dropWhile is_space (drop 4 (un @ ?s1)) else un @ ?s1) = ?s1"
  proof (cases "un = []")
    case True
    have n: "\<not> (startswith ?s1 ''Unit'' \<and> takeWhile is_space (drop 4 ?s1) \<noteq> [])"
      using no_unit_prefix [OF a(2) sl, of ?s3] by simp
    show ?thesis unfolding True append_Nil by (rule if_not_P [OF n])
  next
    case False
    with un obtain w0 where un': "un = ''Unit'' @ w0" "w0 \<noteq> []" "list_all is_space w0"
      by auto
    have c: "?s1 = [] \<or> \<not> is_space (hd ?s1)" using a' by (simp add: alnum_not_space)
    have "drop 4 (un @ ?s1) = w0 @ ?s1" by (simp add: un')
    moreover have "takeWhile is_space (w0 @ ?s1) = w0" by (rule takeWhile_run [OF un'(3) c])
    moreover have "dropWhile is_space (w0 @ ?s1) = ?s1" by (rule dropWhile_run [OF un'(3) c])
    moreover have "startswith (un @ ?s1) ''Unit''" by (simp add: un' startswith_def)
    ultimately show ?thesis using un'(2) by simp
  qed
  have sl_cls: "[sl] @ ?s3 = [] \<or> \<not> is_alnum (hd ([sl] @ ?s3))"
    using sl by (simp add: slash_plain)
  have tw1: "takeWhile is_alnum ?s1 = a" by (rule takeWhile_run [OF a(2) sl_cls])
  have dw1: "dropWhile is_alnum ?s1 = sl # ?s3"
    using dropWhile_run [OF a(2) sl_cls] by simp
  have xd: "\<not> is_digit x" "\<not> is_alpha x" using w'(2) by (auto simp: cls)
  have nd: "l @ ?s5 = [] \<or> \<not> is_digit (hd (l @ ?s5))"
  proof (cases l)
    case Nil then show ?thesis using xd w' by simp
  next
    case (Cons c cs)
    with l have "is_alpha c" by simp
    then have "\<not> is_digit c" by (auto simp: cls)
    with Cons show ?thesis by simp
  qed
  have tw2: "takeWhile is_digit ?s3 = d" by (rule takeWhile_run [OF d(2) nd])
  have dw2: "dropWhile is_digit ?s3 = l @ ?s5" by (rule dropWhile_run [OF d(2) nd])
  have letter: "(case l @ ?s5 of [] \<Rightarrow> [] | c # _ \<Rightarrow> if is_alpha c then [c] else []) = l"
  proof (cases l)
    case Nil then show ?thesis using xd w' by simp
  next
    case (Cons c cs)
    with l show ?thesis by simp
  qed
  have nr: "rest = [] \<or> \<not> is_space (hd rest)" using rest by simp
  have tw3: "takeWhile is_space ?s5 = w" by (rule takeWhile_run [OF w(2) nr])
  have dw3: "dropWhile is_space ?s5 = rest" by (rule dropWhile_run [OF w(2) nr])
  have sl': "\<not> (sl \<noteq> CHR ''/'' \<and> sl \<noteq> CHR 0x5C)" using sl by (simp add: slash_def)
  show ?thesis
    unfolding unit_match_def s1 Let_def tw1 dw1
    using a(1) d(1) w(1) rest sl' by (simp add: tw2 dw2 letter tw3 dw3 del: append_Cons)
qed

text \<open>Every string that \<open>unit_match\<close> accepts is in the language of \<open>unit_pattern\<close>.\<close>

lemma unit_match_sound:
  assumes "unit_match s = Some (n, r)"
  shows "s \<in> language unit_pattern"
proof -
  define s1 where "s1 = (if startswith s ''Unit'' \<and> takeWhile is_space (drop 4 s) \<noteq> []
                then dropWhile is_space (drop 4 s) else s)"
  define un where "un = (if startswith s ''Unit'' \<and> takeWhile is_space (drop 4 s) \<noteq> []
                then ''Unit'' @ takeWhile is_space (drop 4 s) else [])"
  have s: "s = un @ s1"
  proof (cases "startswith s ''Unit'' \<and> takeWhile is_space (drop 4 s) \<noteq> []")
    case True
    then have "take 4 s = ''Unit''" by (simp add: startswith_def eval_nat_numeral)
    then have "s = ''Unit'' @ drop 4 s" by (metis append_take_drop_id)
    also have "drop 4 s = takeWhile is_space (drop 4 s) @ dropWhile is_space (drop 4 s)" by simp
    finally show ?thesis using True by (simp add: un_def s1_def)
  next
    case False
    then show ?thesis by (auto simp: un_def s1_def)
  qed
  have un: "un \<in> language (Optional (Cat (Literal ''Unit'') spaces1))"
  proof (cases "startswith s ''Unit'' \<and> takeWhile is_space (drop 4 s) \<noteq> []")
    case True
    have "takeWhile is_space (drop 4 s) \<in> language spaces1"
      unfolding spaces1_def some1_class_iff using True
      by (simp add: list_all_iff) (meson set_takeWhileD)
    moreover have "''Unit'' \<in> language (Literal ''Unit'')" by (simp only: language_Literal) simp
    ultimately have "''Unit'' @ takeWhile is_space (drop 4 s)
        \<in> language (Cat (Literal ''Unit'') spaces1)"
      unfolding language.simps by (rule cat_langI [rotated])
    then show ?thesis using True by (simp only: un_def language_Optional) simp
  next
    case False
    then show ?thesis by (simp add: un_def language_Optional)
  qed
  define unit where "unit = takeWhile is_alnum s1"
  define s2 where "s2 = dropWhile is_alnum s1"
  from assms have u: "unit \<noteq> []"
    by (auto simp: unit_match_def Let_def s1_def unit_def split: if_splits list.splits)
  from assms obtain sl s3 where s2: "s2 = sl # s3" and sl: "slash sl"
    by (cases s2)
      (auto simp: unit_match_def Let_def s1_def s2_def slash_def split: if_splits list.splits)
  define digits where "digits = takeWhile is_digit s3"
  define s4 where "s4 = dropWhile is_digit s3"
  define letter where "letter = (case s4 of [] \<Rightarrow> [] | c # _ \<Rightarrow> if is_alpha c then [c] else [])"
  define s5 where "s5 = drop (length letter) s4"
  define ws where "ws = takeWhile is_space s5"
  define rest where "rest = dropWhile is_space s5"
  from assms s2 sl u have ok: "digits \<noteq> []" "ws \<noteq> []" "rest \<noteq> []" "line_feed \<notin> set rest"
    by (auto simp: unit_match_def Let_def s1_def [symmetric] s2_def [symmetric]
        unit_def [symmetric] digits_def s4_def letter_def s5_def ws_def rest_def
        split: if_splits)
  have s1: "s1 = unit @ [sl] @ digits @ letter @ ws @ rest"
  proof -
    have "s1 = unit @ s2" by (simp add: unit_def s2_def)
    moreover have "s3 = digits @ s4" by (simp add: digits_def s4_def)
    moreover have "s4 = letter @ s5"
      by (cases s4) (auto simp: letter_def s5_def)
    moreover have "s5 = ws @ rest" by (simp add: ws_def rest_def)
    ultimately show ?thesis using s2 by simp
  qed
  have "unit \<in> language (Some1 (Class is_alnum))"
    unfolding some1_class_iff using u by (auto simp: unit_def list_all_iff dest: set_takeWhileD)
  moreover have "[sl] \<in> language (Class slash)" using sl by simp
  moreover have "digits \<in> language (Some1 (Class is_digit))"
    unfolding some1_class_iff using ok(1)
    by (auto simp: digits_def list_all_iff dest: set_takeWhileD)
  moreover have "letter \<in> language (Optional (Class is_alpha))"
    unfolding optional_class_iff by (cases s4) (auto simp: letter_def)
  moreover have "ws \<in> language spaces1"
    unfolding spaces1_def some1_class_iff using ok(2)
    by (auto simp: ws_def list_all_iff dest: set_takeWhileD)
  moreover have "rest \<in> language (Some1 Dot)"
    unfolding Dot_def some1_class_iff using ok(3,4) by (auto simp: list_all_iff)
  ultimately have "un @ unit @ [sl] @ digits @ letter @ ws @ rest \<in> language unit_pattern"
    unfolding unit_pattern_def language.simps using un [unfolded language.simps]
    by (intro cat_langI)
  then show ?thesis by (simp add: s s1)
qed

lemma last_dot_rest:
  assumes "x \<noteq> []" "\<not> is_space (last x)"
  shows "dropWhile is_space x \<noteq> [] \<and> \<not> is_space (hd (dropWhile is_space x))
         \<and> last (dropWhile is_space x) = last x"
proof -
  from assms have "last x \<in> set x" "\<not> is_space (last x)" by auto
  then have ne: "dropWhile is_space x \<noteq> []" by (auto simp: dropWhile_eq_Nil_conv)
  then have "\<not> is_space (hd (dropWhile is_space x))" by (rule hd_dropWhile)
  moreover have "last (dropWhile is_space x) = last x"
    using ne by (metis last_appendR takeWhile_dropWhile_id)
  ultimately show ?thesis using ne by simp
qed

text \<open>
  On a string that does not end in white space, \<open>unit_match\<close> accepts every string of the
  language of \<open>unit_pattern\<close>.
\<close>

lemma unit_match_complete:
  assumes "s \<in> language unit_pattern" and "\<not> is_space (last s)"
  shows "\<exists>n r. unit_match s = Some (n, r)"
proof -
  from assms(1) obtain un t1 where 1: "s = un @ t1"
      "un \<in> language (Optional (Cat (Literal ''Unit'') spaces1))"
    and t1: "t1 \<in> language (Cat (Some1 (Class is_alnum)) (Cat (Class slash)
      (Cat (Some1 (Class is_digit)) (Cat (Optional (Class is_alpha)) (Cat spaces1 (Some1 Dot))))))"
    unfolding unit_pattern_def by (rule cat_langE)
  from t1 obtain a t2 where 2: "t1 = a @ t2" "a \<in> language (Some1 (Class is_alnum))"
    and t2: "t2 \<in> language (Cat (Class slash)
      (Cat (Some1 (Class is_digit)) (Cat (Optional (Class is_alpha)) (Cat spaces1 (Some1 Dot)))))"
    by (rule cat_langE)
  from t2 obtain sl t3 where 3: "t2 = sl @ t3" "sl \<in> language (Class slash)"
    and t3: "t3 \<in> language
      (Cat (Some1 (Class is_digit)) (Cat (Optional (Class is_alpha)) (Cat spaces1 (Some1 Dot))))"
    by (rule cat_langE)
  from t3 obtain d t4 where 4: "t3 = d @ t4" "d \<in> language (Some1 (Class is_digit))"
    and t4: "t4 \<in> language (Cat (Optional (Class is_alpha)) (Cat spaces1 (Some1 Dot)))"
    by (rule cat_langE)
  from t4 obtain l t5 where 5: "t4 = l @ t5" "l \<in> language (Optional (Class is_alpha))"
    and t5: "t5 \<in> language (Cat spaces1 (Some1 Dot))"
    by (rule cat_langE)
  from t5 obtain w x where 6: "t5 = w @ x" "w \<in> language spaces1" "x \<in> language (Some1 Dot)"
    by (rule cat_langE)
  from 3(2) obtain c where c: "sl = [c]" "slash c" by auto
  from 6(3) have x: "x \<noteq> []" "line_feed \<notin> set x"
    by (auto simp: Dot_def some1_class_iff list_all_iff)
  have s: "s = un @ a @ [c] @ d @ l @ w @ x" using 1 2 3 4 5 6 c by simp
  with x(1) assms(2) have "\<not> is_space (last x)" by simp
  note r = last_dot_rest [OF x(1) this]
  let ?gap = "takeWhile is_space x"
  let ?rest = "dropWhile is_space x"
  have un: "un = [] \<or> (\<exists>w0. un = ''Unit'' @ w0 \<and> w0 \<noteq> [] \<and> list_all is_space w0)"
  proof (cases "un = []")
    case False
    with 1(2) have "un \<in> language (Cat (Literal ''Unit'') spaces1)"
      by (simp only: language_Optional) simp
    then obtain p w0 where "un = p @ w0" "p \<in> language (Literal ''Unit'')"
        "w0 \<in> language spaces1"
      by (rule cat_langE)
    then have "un = ''Unit'' @ w0 \<and> w0 \<noteq> [] \<and> list_all is_space w0"
      by (simp only: language_Literal spaces1_def some1_class_iff) simp
    then show ?thesis by blast
  qed simp
  have w: "w @ ?gap \<noteq> []" "list_all is_space (w @ ?gap)"
    using 6(2) by (auto simp: spaces1_def some1_class_iff list_all_iff dest: set_takeWhileD)
  have "line_feed \<notin> set ?rest" using x(2) by (meson set_dropWhileD)
  with r have rest: "?rest \<noteq> []" "\<not> is_space (hd ?rest)" "line_feed \<notin> set ?rest" by simp_all
  have "unit_match (un @ a @ [c] @ d @ l @ (w @ ?gap) @ ?rest) = Some (d @ l, ?rest)"
    using un c(2) w rest 2(2) 4(2) 5(2)
    by (intro unit_match_greedy) (simp_all add: some1_class_iff optional_class_iff)
  moreover have "un @ a @ [c] @ d @ l @ (w @ ?gap) @ ?rest = s" by (simp add: s)
  ultimately show ?thesis by simp
qed

lemma strip_last: "strip s \<noteq> [] \<Longrightarrow> \<not> is_space (last (strip s))"
proof -
  assume a: "strip s \<noteq> []"
  then have ne: "dropWhile is_space (rev (lstrip s)) \<noteq> []"
    by (simp add: strip_def rstrip_def)
  then have "\<not> is_space (hd (dropWhile is_space (rev (lstrip s))))" by (rule hd_dropWhile)
  then show ?thesis using ne by (simp add: strip_def rstrip_def last_rev)
qed

text \<open>The strings of the spec's shape, taken apart.\<close>

lemma unit_address_shape_parts:
  assumes "t \<in> language unit_address_shape"
  obtains unit number x where "t = unit @ number @ '' '' @ x"
    "unit \<in> language unit_prefix_shape" "number \<in> language building_number_shape"
    "x \<noteq> []" "line_feed \<notin> set x"
proof -
  from assms obtain unit t1 where 1: "t = unit @ t1" "unit \<in> language unit_prefix_shape"
    and t1: "t1 \<in> language (Cat building_number_shape (Cat (Lit CHR '' '') (Some1 Dot)))"
    unfolding unit_address_shape_def by (rule cat_langE)
  from t1 obtain number t2 where 2: "t1 = number @ t2"
      "number \<in> language building_number_shape"
    and t2: "t2 \<in> language (Cat (Lit CHR '' '') (Some1 Dot))"
    by (rule cat_langE)
  from t2 obtain sp x where 3: "t2 = sp @ x" "sp \<in> language (Lit CHR '' '')"
      "x \<in> language (Some1 Dot)"
    by (rule cat_langE)
  from 3(2) have sp: "sp = '' ''" by (auto simp: Lit_def)
  from 3(3) have x: "x \<noteq> []" "line_feed \<notin> set x"
    by (auto simp: Dot_def some1_class_iff list_all_iff)
  show ?thesis using that [of unit number x] 1 2 3 sp x by simp
qed

lemma unit_prefix_shape_parts:
  assumes "unit \<in> language unit_prefix_shape"
  obtains un a sl where "unit = un @ a @ [sl]" "un = [] \<or> un = ''Unit ''"
    "a \<noteq> []" "list_all is_alnum a" "slash sl"
proof -
  from assms obtain un t1 where 1: "unit = un @ t1" "un \<in> language (Optional (Literal ''Unit ''))"
    and t1: "t1 \<in> language (Cat (Some1 (Class is_digit))
               (Cat (Optional (Class is_alpha)) (Class slash)))"
    unfolding unit_prefix_shape_def by (rule cat_langE)
  from t1 obtain d t2 where 2: "t1 = d @ t2" "d \<in> language (Some1 (Class is_digit))"
    and t2: "t2 \<in> language (Cat (Optional (Class is_alpha)) (Class slash))"
    by (rule cat_langE)
  from t2 obtain l sl where 3: "t2 = l @ sl" "l \<in> language (Optional (Class is_alpha))"
      "sl \<in> language (Class slash)"
    by (rule cat_langE)
  from 3(3) obtain c where c: "sl = [c]" "slash c" by auto
  have un: "un = [] \<or> un = ''Unit ''"
    using 1(2) by (simp only: language_Optional language_Literal) auto
  have a: "d @ l \<noteq> []" "list_all is_alnum (d @ l)"
    using 2(2) 3(2) by (auto simp: some1_class_iff optional_class_iff list_all_iff is_alnum_def)
  show ?thesis using that [of un "d @ l" c] 1 2 3 c un a by simp
qed

lemma building_number_shape_parts:
  assumes "number \<in> language building_number_shape"
  obtains d l where "number = d @ l" "d \<noteq> []" "list_all is_digit d"
    "length l \<le> 1" "list_all is_alpha l"
proof -
  from assms obtain d l where "number = d @ l" "d \<in> language (Some1 (Class is_digit))"
      "l \<in> language (Optional (Class is_alpha))"
    unfolding building_number_shape_def by (rule cat_langE)
  then show ?thesis using that [of d l] by (simp add: some1_class_iff optional_class_iff)
qed

text \<open>
  C8, as stated, fails: a string of the shape whose rest is white space only is stripped
  to a string that \<open>unit_pattern\<close> does not match, and keeps its unit.
\<close>

theorem validate_address_unit_counterexample:
  "matches unit_address_shape ''2/40  '' \<and> validate_address ''2/40  '' = (False, ''2/40'')"
  by code_simp

text \<open>
  C8, amended. For every address string whose stripped form matches the shape,
  \<open>validate_address\<close> returns the building number that follows the slash, one space, and
  the rest without the white space it may begin with: the stripped address is the unit
  with its slash, the building number, a space, white space \<open>gap\<close> and the \<open>rest\<close>, and
  the value returned is the number, a space and \<open>rest\<close>. In particular the address of the
  spec's example normalises to \<open>40 Minchinton St, Caloundra QLD 4551\<close>, and is valid.
\<close>

theorem validate_address_strips_unit:
  assumes "matches unit_address_shape (strip s)"
  shows "(\<exists>unit number gap rest.
            strip s = unit @ number @ '' '' @ gap @ rest
          \<and> matches unit_prefix_shape unit
          \<and> matches building_number_shape number
          \<and> list_all is_space gap \<and> rest \<noteq> [] \<and> \<not> is_space (hd rest)
          \<and> snd (validate_address s) = number @ '' '' @ rest)
       \<and> validate_address ''Unit 2/40 Minchinton St, Caloundra QLD 4551''
           = (True, ''40 Minchinton St, Caloundra QLD 4551'')"
proof
  from assms have "strip s \<in> language unit_address_shape" by (simp add: matches_language)
  then obtain unit number x where t: "strip s = unit @ number @ '' '' @ x"
    and unit: "unit \<in> language unit_prefix_shape"
    and number: "number \<in> language building_number_shape"
    and x: "x \<noteq> []" "line_feed \<notin> set x"
    by (rule unit_address_shape_parts)
  from unit obtain un a sl where u: "unit = un @ a @ [sl]" "un = [] \<or> un = ''Unit ''"
    "a \<noteq> []" "list_all is_alnum a" "slash sl"
    by (rule unit_prefix_shape_parts)
  from number obtain d l where n: "number = d @ l" "d \<noteq> []" "list_all is_digit d"
    "length l \<le> 1" "list_all is_alpha l"
    by (rule building_number_shape_parts)
  from t x(1) have ne: "strip s \<noteq> []" by simp
  then have "s \<noteq> []" by (auto simp: strip_def lstrip_def rstrip_def)
  from strip_last [OF ne] t x(1) have "\<not> is_space (last x)" by simp
  note r = last_dot_rest [OF x(1) this]
  let ?gap = "takeWhile is_space x"
  let ?rest = "dropWhile is_space x"
  have sp: "is_space CHR '' ''" by (simp add: cls)
  have un: "un = [] \<or> (\<exists>w0. un = ''Unit'' @ w0 \<and> w0 \<noteq> [] \<and> list_all is_space w0)"
    using u(2) sp by auto
  have w: "'' '' @ ?gap \<noteq> []" "list_all is_space ('' '' @ ?gap)"
    using sp by (auto simp: list_all_iff dest: set_takeWhileD)
  have "line_feed \<notin> set ?rest" using x(2) by (meson set_dropWhileD)
  with r have rest: "?rest \<noteq> []" "\<not> is_space (hd ?rest)" "line_feed \<notin> set ?rest" by simp_all
  have "unit_match (un @ a @ [sl] @ d @ l @ ('' '' @ ?gap) @ ?rest) = Some (d @ l, ?rest)"
    using un u(3,4,5) n(2,3,4,5) w rest by (intro unit_match_greedy)
  moreover have s: "strip s = unit @ number @ '' '' @ ?gap @ ?rest" by (simp add: t)
  then have "un @ a @ [sl] @ d @ l @ ('' '' @ ?gap) @ ?rest = strip s" by (simp add: u n)
  ultimately have m: "unit_match (strip s) = Some (number, ?rest)" by (simp add: n)
  have v: "snd (validate_address s) = number @ '' '' @ ?rest"
    using \<open>s \<noteq> []\<close> m by (simp add: validate_address_result Let_def)
  have g: "list_all is_space ?gap" by (auto simp: list_all_iff dest: set_takeWhileD)
  from s unit number g rest(1,2) v
  show "\<exists>unit number gap rest.
            strip s = unit @ number @ '' '' @ gap @ rest
          \<and> matches unit_prefix_shape unit
          \<and> matches building_number_shape number
          \<and> list_all is_space gap \<and> rest \<noteq> [] \<and> \<not> is_space (hd rest)
          \<and> snd (validate_address s) = number @ '' '' @ rest"
    unfolding matches_language by blast
next
  show "validate_address ''Unit 2/40 Minchinton St, Caloundra QLD 4551''
           = (True, ''40 Minchinton St, Caloundra QLD 4551'')"
    by code_simp
qed

theorem validate_address_strips_unit_witness:
  "matches unit_address_shape (strip ''  35B/12A  Example Street '')
   \<and> (\<exists>unit number gap rest.
            strip ''  35B/12A  Example Street '' = unit @ number @ '' '' @ gap @ rest
          \<and> matches unit_prefix_shape unit
          \<and> matches building_number_shape number
          \<and> list_all is_space gap \<and> rest \<noteq> [] \<and> \<not> is_space (hd rest)
          \<and> snd (validate_address ''  35B/12A  Example Street '') = number @ '' '' @ rest)
   \<and> snd (validate_address ''  35B/12A  Example Street '') = ''12A Example Street''"
proof -
  have m: "matches unit_address_shape (strip ''  35B/12A  Example Street '')"
    by code_simp
  have v: "snd (validate_address ''  35B/12A  Example Street '') = ''12A Example Street''"
    by code_simp
  from validate_address_strips_unit [OF m] m v show ?thesis by blast
qed

subsection \<open>Phone numbers\<close>

lemma validate_phone_valid_iff:
  "fst (validate_phone phone) \<longleftrightarrow>
     8 \<le> length (phone_digits phone) \<and> length (phone_digits phone) \<le> 12"
  by (auto simp: validate_phone_def phone_digits_def Let_def)

text \<open>
  The format table of the spec holds for every valid number except one that begins with
  \<open>1800\<close> and does not have ten digits.
\<close>

lemma validate_phone_table:
  assumes "phone \<noteq> []" and "d = phone_digits phone" and "8 \<le> length d" "length d \<le> 12"
    and "\<not> startswith d ''1800'' \<or> length d = 10"
  shows "snd (validate_phone phone) =
    (if length d = 10 \<and> startswith d ''04''
       then ''0'' @ slice 1 4 d @ '' '' @ slice 4 7 d @ '' '' @ slice 7 10 d
     else if length d = 10 \<and> (startswith d ''02'' \<or> startswith d ''03''
               \<or> startswith d ''07'' \<or> startswith d ''08'')
       then ''('' @ slice 0 2 d @ '') '' @ slice 2 6 d @ '' '' @ slice 6 10 d
     else if length d = 10 \<and> (startswith d ''1300'' \<or> startswith d ''1800'')
       then slice 0 4 d @ '' '' @ slice 4 7 d @ '' '' @ slice 7 10 d
     else if length d = 8 then slice 0 4 d @ '' '' @ slice 4 8 d
     else if length d = 9 then slice 0 3 d @ '' '' @ slice 3 6 d @ '' '' @ slice 6 9 d
     else d)"
  using assms by (auto simp: validate_phone_def phone_digits_def Let_def)

lemma validate_phone_mobile_example:
  "validate_phone ''0490193347'' = (True, ''0490 193 347'')"
  by (simp add: validate_phone_def Let_def startswith_def slice_def cls)

text \<open>
  C3. The claim gives the eight-digit row of the format table as \<open>xxxx xxxx\<close> and the
  rows of eleven and twelve digits as the digits alone. The code takes the row of the
  1300 and 1800 numbers for every valid number that begins with \<open>1800\<close>, whatever its
  length: the eight digits \<open>18001234\<close> come out as \<open>1800 123 4\<close>, not as \<open>1800 1234\<close>.
\<close>

theorem validate_phone_1800_eight_digits:
  "validate_phone ''18001234'' = (True, ''1800 123 4'')"
  by (simp add: validate_phone_def Let_def startswith_def slice_def cls)

lemma validate_phone_1800_twelve_digits:
  "validate_phone ''180012345678'' = (True, ''1800 123 456'')"
  by (simp add: validate_phone_def Let_def startswith_def slice_def cls)

subsection \<open>Email addresses\<close>

text \<open>
  C4, as stated, fails: an input that does not match the email shape comes back trimmed
  and in lower case, not as it was given.
\<close>

theorem validate_email_counterexample:
  "\<not> matches email_pattern ''Not-An-Email ''
   \<and> validate_email ''Not-An-Email '' = (False, ''not-an-email'')"
  by code_simp

text \<open>
  C4, amended. For every input string, \<open>validate_email\<close> returns the trimmed, lower-cased
  form of the input, with valid = true exactly when that form matches the email shape:
  an input that does not match is returned trimmed and lower-cased with valid = false, and
  a matching input trimmed and lower-cased with valid = true.
\<close>

theorem validate_email_result:
  "validate_email s =
     (matches email_pattern (lower (strip s)), lower (strip s))"
proof (cases "s = []")
  case True
  then show ?thesis
    by (simp add: validate_email_def lower_def strip_def lstrip_def rstrip_def matches_def
        email_pattern_def Some1_def)
next
  case False
  then show ?thesis by (simp add: validate_email_def Let_def)
qed

subsection \<open>Category codes\<close>

lemma validate_psychologist_type_range:
  "validate_psychologist_type x \<in> {(False, []), (True, ''C''), (True, ''G'')}"
  by (auto simp: validate_psychologist_type_def Let_def)

lemma validate_psychologist_type_fixed:
  "validate_psychologist_type [] = (False, [])"
  "validate_psychologist_type ''C'' = (True, ''C'')"
  "validate_psychologist_type ''G'' = (True, ''G'')"
  by (simp_all add: validate_psychologist_type_def Let_def upper_def strip_def lstrip_def
      rstrip_def is_space_def upper_char_def ascii_lowercase_def ascii_uppercase_def)

text \<open>
  C9. Category validation is idempotent: validating the value that
  \<open>validate_psychologist_type\<close> returned gives the same validity and the same value again,
  for every input string.
\<close>

theorem validate_psychologist_type_idempotent:
  "validate_psychologist_type (snd (validate_psychologist_type x))
     = validate_psychologist_type x"
proof -
  consider "validate_psychologist_type x = (False, [])"
    | "validate_psychologist_type x = (True, ''C'')"
    | "validate_psychologist_type x = (True, ''G'')"
    using validate_psychologist_type_range [of x] by auto
  then show ?thesis
    by cases (simp_all add: validate_psychologist_type_fixed)
qed

subsection \<open>Fetching a URL\<close>


text \<open>A URL is valid when it has both a scheme and a network location.\<close>

lemma is_valid_url_parts:
  "is_valid_url urlparse url \<longleftrightarrow>
     url \<noteq> [] \<and> (\<exists>r. urlparse url = Some r \<and> scheme r \<noteq> [] \<and> netloc r \<noteq> [])"
  by (auto simp: is_valid_url_def split: option.splits)

lemma fetch_loop_retried:
  assumes "retries < max_retries" and "retried (session (gets t))"
  shows "fetch_loop session max_retries retries t =
         fetch_loop session max_retries (retries + 1)
           (t\<lparr>gets := gets t + 1, slept := slept t @ [2 * (retries + 1)]\<rparr>)"
  using assms by (subst fetch_loop.simps) (auto simp: retried_def split: response.splits)

lemma fetch_loop_200:
  assumes "retries < max_retries" and "session (gets t) = Status 200 body"
  shows "fetch_loop session max_retries retries t = ((True, Some body), t\<lparr>gets := gets t + 1\<rparr>)"
  using assms by (subst fetch_loop.simps) simp

lemma fetch_loop_404:
  assumes "retries < max_retries" and "session (gets t) = Status 404 body"
  shows "fetch_loop session max_retries retries t = ((False, None), t\<lparr>gets := gets t + 1\<rparr>)"
  using assms by (subst fetch_loop.simps) simp

lemma fetch_loop_exhausted:
  "fetch_loop session max_retries max_retries t = ((False, None), t)"
  by (subst fetch_loop.simps) simp

text \<open>After \<open>k\<close> outcomes that are retried, the loop is at its attempt number \<open>k\<close>.\<close>

lemma fetch_loop_skip:
  assumes "\<forall>j<k. retried (session j)" and "k \<le> max_retries"
  shows "fetch_loop session max_retries 0 \<lparr>gets = 0, slept = []\<rparr> =
         fetch_loop session max_retries k \<lparr>gets = k, slept = map (\<lambda>i. 2 * (i + 1)) [0..<k]\<rparr>"
  using assms
proof (induction k)
  case 0
  then show ?case by simp
next
  case (Suc k)
  then have "fetch_loop session max_retries 0 \<lparr>gets = 0, slept = []\<rparr> =
         fetch_loop session max_retries k \<lparr>gets = k, slept = map (\<lambda>i. 2 * (i + 1)) [0..<k]\<rparr>"
    by simp
  also have "\<dots> = fetch_loop session max_retries (k + 1)
       \<lparr>gets = k + 1, slept = map (\<lambda>i. 2 * (i + 1)) [0..<k] @ [2 * (k + 1)]\<rparr>"
    using Suc.prems by (subst fetch_loop_retried) auto
  finally show ?case by simp
qed

text \<open>
  C7. With the default of three retries: on a URL without a scheme or without a network
  location \<open>fetch_url\<close> fails and issues no GET; on a valid URL, a status 200 gives
  success with the body, and a status 404 gives failure with no GET after it (at the
  first GET, \<open>k = 0\<close>: after exactly one GET), also when \<open>k\<close> outcomes that are retried
  came before; and when the three GETs all end in another status or in a network error,
  the call fails after exactly three GETs, having slept 2, 4 and 6 seconds.
\<close>

theorem fetch_url_outcomes:
  "(\<not> is_valid_url urlparse url \<longrightarrow>
      fetch_url urlparse session url 3 = ((False, None), \<lparr>gets = 0, slept = []\<rparr>))
   \<and> (is_valid_url urlparse url \<and> k < 3 \<and> (\<forall>j<k. retried (session j))
        \<and> session k = Status 200 body \<longrightarrow>
      fetch_url urlparse session url 3 =
        ((True, Some body), \<lparr>gets = k + 1, slept = map (\<lambda>i. 2 * (i + 1)) [0..<k]\<rparr>))
   \<and> (is_valid_url urlparse url \<and> k < 3 \<and> (\<forall>j<k. retried (session j))
        \<and> session k = Status 404 body \<longrightarrow>
      fetch_url urlparse session url 3 =
        ((False, None), \<lparr>gets = k + 1, slept = map (\<lambda>i. 2 * (i + 1)) [0..<k]\<rparr>))
   \<and> (is_valid_url urlparse url \<and> (\<forall>j<3. retried (session j)) \<longrightarrow>
      fetch_url urlparse session url 3 = ((False, None), \<lparr>gets = 3, slept = [2, 4, 6]\<rparr>))"
proof (intro conjI impI)
  assume "\<not> is_valid_url urlparse url"
  then show "fetch_url urlparse session url 3 = ((False, None), \<lparr>gets = 0, slept = []\<rparr>)"
    by (simp add: fetch_url_def)
next
  assume a: "is_valid_url urlparse url \<and> k < 3 \<and> (\<forall>j<k. retried (session j))
        \<and> session k = Status 200 body"
  then have "fetch_loop session 3 0 \<lparr>gets = 0, slept = []\<rparr> =
     fetch_loop session 3 k \<lparr>gets = k, slept = map (\<lambda>i. 2 * (i + 1)) [0..<k]\<rparr>"
    by (intro fetch_loop_skip) auto
  with a have "fetch_url urlparse session url 3 =
     fetch_loop session 3 k \<lparr>gets = k, slept = map (\<lambda>i. 2 * (i + 1)) [0..<k]\<rparr>"
    by (simp add: fetch_url_def)
  also have "\<dots> = ((True, Some body), \<lparr>gets = k + 1, slept = map (\<lambda>i. 2 * (i + 1)) [0..<k]\<rparr>)"
    using a by (subst fetch_loop_200 [where body = body]) auto
  finally show "fetch_url urlparse session url 3 =
        ((True, Some body), \<lparr>gets = k + 1, slept = map (\<lambda>i. 2 * (i + 1)) [0..<k]\<rparr>)" .
next
  assume a: "is_valid_url urlparse url \<and> k < 3 \<and> (\<forall>j<k. retried (session j))
        \<and> session k = Status 404 body"
  then have "fetch_loop session 3 0 \<lparr>gets = 0, slept = []\<rparr> =
     fetch_loop session 3 k \<lparr>gets = k, slept = map (\<lambda>i. 2 * (i + 1)) [0..<k]\<rparr>"
    by (intro fetch_loop_skip) auto
  with a have "fetch_url urlparse session url 3 =
     fetch_loop session 3 k \<lparr>gets = k, slept = map (\<lambda>i. 2 * (i + 1)) [0..<k]\<rparr>"
    by (simp add: fetch_url_def)
  also have "\<dots> = ((False, None), \<lparr>gets = k + 1, slept = map (\<lambda>i. 2 * (i + 1)) [0..<k]\<rparr>)"
    using a by (subst fetch_loop_404 [where body = body]) auto
  finally show "fetch_url urlparse session url 3 =
        ((False, None), \<lparr>gets = k + 1, slept = map (\<lambda>i. 2 * (i + 1)) [0..<k]\<rparr>)" .
next
  assume a: "is_valid_url urlparse url \<and> (\<forall>j<3. retried (session j))"
  then have "fetch_url urlparse session url 3 =
     fetch_loop session 3 3 \<lparr>gets = 3, slept = map (\<lambda>i. 2 * (i + 1)) [0..<3]\<rparr>"
    using fetch_loop_skip [of 3 session 3] by (simp add: fetch_url_def)
  also have "\<dots> = ((False, None), \<lparr>gets = 3, slept = map (\<lambda>i. 2 * (i + 1)) [0..<3]\<rparr>)"
    by (rule fetch_loop_exhausted)
  also have "map (\<lambda>i. 2 * (i + 1)) [0..<3] = [2, 4, 6::nat]"
    by (simp add: upt_rec)
  finally show "fetch_url urlparse session url 3 = ((False, None), \<lparr>gets = 3, slept = [2, 4, 6]\<rparr>)" .
qed

lemma is_valid_url_example: "is_valid_url urlparse_plain ''https://example.com/team''"
  by code_simp
lemma is_valid_url_no_scheme: "\<not> is_valid_url urlparse_plain ''example.com/team''"
  by code_simp


theorem fetch_url_outcomes_witness:
  "fetch_url urlparse_plain (\<lambda>k. RequestException) ''example.com/team'' 3
     = ((False, None), \<lparr>gets = 0, slept = []\<rparr>)
   \<and> fetch_url urlparse_plain (\<lambda>k. Status 200 ''<html>'') ''https://example.com/team'' 3
     = ((True, Some ''<html>''), \<lparr>gets = 1, slept = []\<rparr>)
   \<and> fetch_url urlparse_plain (\<lambda>k. if k = 0 then Status 503 [] else Status 200 ''<html>'')
        ''https://example.com/team'' 3
     = ((True, Some ''<html>''), \<lparr>gets = 2, slept = [2]\<rparr>)
   \<and> fetch_url urlparse_plain (\<lambda>k. Status 404 []) ''https://example.com/team'' 3
     = ((False, None), \<lparr>gets = 1, slept = []\<rparr>)
   \<and> fetch_url urlparse_plain (\<lambda>k. if k = 1 then RequestException else Status 500 [])
        ''https://example.com/team'' 3
     = ((False, None), \<lparr>gets = 3, slept = [2, 4, 6]\<rparr>)"
  using
    fetch_url_outcomes [where urlparse = urlparse_plain and url = "''example.com/team''"
      and session = "\<lambda>k. RequestException"]
    fetch_url_outcomes [where urlparse = urlparse_plain and url = "''https://example.com/team''"
      and k = 0 and session = "\<lambda>k. Status 200 ''<html>''" and body = "''<html>''"]
    fetch_url_outcomes [where urlparse = urlparse_plain and url = "''https://example.com/team''"
      and k = 1 and session = "\<lambda>k. if k = 0 then Status 503 [] else Status 200 ''<html>''"
      and body = "''<html>''"]
    fetch_url_outcomes [where urlparse = urlparse_plain and url = "''https://example.com/team''"
      and k = 0 and session = "\<lambda>k. Status 404 []" and body = "[]"]
    fetch_url_outcomes [where urlparse = urlparse_plain and url = "''https://example.com/team''"
      and session = "\<lambda>k. if k = 1 then RequestException else Status 500 []"]
    is_valid_url_example is_valid_url_no_scheme
  by (simp add: retried_def)


subsection \<open>Same domain\<close>

text \<open>Hosts that are equal without their leading \<open>www.\<close> are the same domain; the converse fails.\<close>

lemma replace_leading_www:
  "startswith h ''www.'' \<Longrightarrow> replace h ''www.'' [] = replace (drop 4 h) ''www.'' []"
  by (subst replace.simps) (simp add: eval_nat_numeral)

lemma same_without_leading_www:
  assumes "without_leading_www h1 = without_leading_www h2"
  shows "replace h1 ''www.'' [] = replace h2 ''www.'' []"
proof (cases "startswith h1 ''www.''")
  case True
  note h1 = this
  show ?thesis
  proof (cases "startswith h2 ''www.''")
    case True
    with h1 assms show ?thesis
      by (simp add: without_leading_www_def replace_leading_www)
  next
    case False
    with h1 assms show ?thesis
      by (simp add: without_leading_www_def replace_leading_www)
  qed
next
  case False
  note h1 = this
  show ?thesis
  proof (cases "startswith h2 ''www.''")
    case True
    with h1 assms show ?thesis
      by (simp add: without_leading_www_def replace_leading_www)
  next
    case False
    with h1 assms show ?thesis
      by (simp add: without_leading_www_def)
  qed
qed

lemma is_same_domain_leading_www:
  assumes "urlparse url1 = Some r1" "urlparse url2 = Some r2"
    and "without_leading_www (netloc r1) = without_leading_www (netloc r2)"
  shows "is_same_domain urlparse url1 url2 = Inr True"
  using assms(1,2) same_without_leading_www [OF assms(3)] by (simp add: is_same_domain_def)


text \<open>
  C5. The claim removes a leading \<open>www.\<close> and nothing else; the code calls
  \<open>replace('www.', '')\<close>, which removes \<open>www.\<close> wherever it stands in the host. Two
  different hosts are then the same domain: \<open>mywww.example.com\<close> and \<open>myexample.com\<close>.
\<close>

theorem is_same_domain_inner_www:
  "urlparse_plain ''http://mywww.example.com'' = Some \<lparr>scheme = ''http'', netloc = ''mywww.example.com''\<rparr>
   \<and> urlparse_plain ''http://myexample.com/about'' = Some \<lparr>scheme = ''http'', netloc = ''myexample.com''\<rparr>
   \<and> is_same_domain urlparse_plain ''http://mywww.example.com'' ''http://myexample.com/about'' = Inr True
   \<and> without_leading_www ''mywww.example.com'' \<noteq> without_leading_www ''myexample.com''"
  by code_simp

subsection \<open>Reconciliation\<close>

lemma fold_ensure_apply:
  "fold (\<lambda>col r'. if r' col = None then r'(col \<mapsto> Str []) else r') cs r col =
     (if col \<in> set cs \<and> r col = None then Some (Str []) else r col)"
  by (induction cs arbitrary: r) auto

lemma ensure_columns_apply:
  "ensure_columns r col =
     (if col \<in> set required_columns \<and> r col = None then Some (Str []) else r col)"
  by (simp add: ensure_columns_def fold_ensure_apply)

lemma format_phone_other: "col \<noteq> ''Phone'' \<Longrightarrow> format_phone r col = r col"
  by (simp add: format_phone_def split: option.splits cell.splits)

lemma prepared_other:
  "col \<noteq> ''Phone'' \<Longrightarrow> col \<notin> set required_columns \<Longrightarrow>
     format_phone (ensure_columns r) col = r col"
  by (simp add: format_phone_other ensure_columns_apply)

lemma prepared_present:
  "col \<noteq> ''Phone'' \<Longrightarrow> r col = Some v \<Longrightarrow> format_phone (ensure_columns r) col = Some v"
  by (simp add: format_phone_other ensure_columns_apply)

lemma prepared_phone: "format_phone (ensure_columns r) ''Phone'' = format_phone r ''Phone''"
  by (simp add: format_phone_def ensure_columns_apply required_columns_def
      split: option.splits cell.splits)

lemma lookup_candidate_cong:
  "r ''Practice'' = r' ''Practice'' \<Longrightarrow> lookup_candidate ed r = lookup_candidate ed r'"
  by (simp add: lookup_candidate_def)

lemma lookup_prepared:
  "lookup_candidate ed (format_phone (ensure_columns r)) = lookup_candidate ed r"
  by (rule lookup_candidate_cong) (simp add: prepared_other required_columns_def)

lemma write_field_other:
  "col \<noteq> field \<Longrightarrow> fst (write_field idx r field v st) col = fst st col"
  by (cases st) (simp add: write_field_def)

lemma write_validated_other:
  "col \<noteq> field \<Longrightarrow> fst (write_validated validate idx r field raw st) col = fst st col"
  by (simp add: write_validated_def write_field_other)

lemma process_row_other:
  assumes "col \<notin> set written_columns"
  shows "fst (process_row today ed idx r) col = r col"
proof (cases "lookup_candidate ed r")
  case Skip
  then show ?thesis by (simp add: process_row_def)
next
  case (Failed e)
  then show ?thesis using assms by (simp add: process_row_def written_columns_def)
next
  case (Found c)
  from assms have ne: "col \<noteq> ''Email''" "col \<noteq> ''Doctors''" "col \<noteq> ''Initial Consult''"
    "col \<noteq> ''Follow-up Consult''" "col \<noteq> ''Date''" "col \<noteq> ''Notes''" "col \<noteq> ''Name''"
    "col \<noteq> ''Type''"
    by (simp_all add: written_columns_def)
  show ?thesis
    by (cases "psychologists c")
      (simp_all add: process_row_def Found Let_def split_beta write_validated_other
        write_field_other ne)
qed

lemma process_row_new_rows: "fst (snd (process_row today ed idx r)) = clones today ed r"
proof (cases "lookup_candidate ed r")
  case (Found c)
  then show ?thesis
    by (cases "psychologists c") (simp_all add: process_row_def clones_def Let_def split_beta)
qed (simp_all add: process_row_def clones_def)

lemma process_rows_length: "length (fst (process_rows today ed k rs)) = length rs"
  by (induction rs arbitrary: k) (simp_all add: split_beta)

lemma process_rows_nth:
  "i < length rs \<Longrightarrow>
     fst (process_rows today ed k rs) ! i = fst (process_row today ed (k + i) (rs ! i))"
proof (induction rs arbitrary: k i)
  case Nil
  then show ?case by simp
next
  case (Cons r rs)
  show ?case
  proof (cases i)
    case 0
    then show ?thesis by (simp add: split_beta)
  next
    case (Suc j)
    with Cons.prems have "j < length rs" by simp
    from Cons.IH [OF this, of "k + 1"] Suc show ?thesis by (simp add: split_beta)
  qed
qed

lemma process_rows_new_rows:
  "fst (snd (process_rows today ed k rs)) = concat (map (clones today ed) rs)"
  by (induction rs arbitrary: k) (simp_all add: split_beta process_row_new_rows)

lemma process_rows_practice:
  "map (\<lambda>r. r ''Practice'') (fst (process_rows today ed k rs)) = map (\<lambda>r. r ''Practice'') rs"
  by (induction rs arbitrary: k)
    (simp_all add: split_beta process_row_other written_columns_def)

lemma new_row_for_practice: "new_row_for today r c p ''Practice'' = r ''Practice''"
  by (simp add: new_row_for_def Let_def)

lemma new_row_for_name:
  "new_row_for today r c p ''Name'' =
     (if psych_name p = [] then r ''Name'' else Some (Str (psych_name p)))"
  by (simp add: new_row_for_def Let_def)

lemma prepared_practice: "format_phone (ensure_columns r) ''Practice'' = r ''Practice''"
  by (simp add: prepared_other required_columns_def)

lemma clones_paired:
  "list_all2 (\<lambda>nr (r, p). nr ''Practice'' = r ''Practice''
                 \<and> (psych_name p \<noteq> [] \<longrightarrow> nr ''Name'' = Some (Str (psych_name p))))
     (clones today ed (format_phone (ensure_columns r))) (map (Pair r) (tl (staff ed r)))"
proof (cases "lookup_candidate ed r")
  case (Found c)
  then show ?thesis
    by (simp add: clones_def staff_def lookup_prepared list_all2_map1 list_all2_map2
        new_row_for_practice new_row_for_name prepared_practice list_all2_same)
qed (simp_all add: clones_def staff_def lookup_prepared)

lemma new_rows_paired:
  "list_all2 (\<lambda>nr (r, p). nr ''Practice'' = r ''Practice''
                 \<and> (psych_name p \<noteq> [] \<longrightarrow> nr ''Name'' = Some (Str (psych_name p))))
     (concat (map (clones today ed) (map (format_phone \<circ> ensure_columns) df)))
     (concat (map (\<lambda>r. map (Pair r) (tl (staff ed r))) df))"
  by (induction df) (simp_all add: list_all2_appendI clones_paired)

text \<open>
  C10. Reconciliation never deletes or reorders existing rows: the updated frame that
  \<open>format_data_for_excel\<close> returns has as many rows as the input frame, with the same
  \<open>Practice\<close> values in the same order. The clones are in the list of new rows only:
  that list pairs off, in order, with the staff members after the first of each input
  row, taken row by row in input order and in staff-list order within a row; each new
  row carries the practice of its row and the name of its staff member (when the staff
  member has a name).
\<close>

theorem format_data_for_excel_rows:
  assumes "format_data_for_excel today df extracted_data = Inr (updated_df, new_rows, discrepancies)"
  shows "length updated_df = length df
    \<and> map (\<lambda>r. r ''Practice'') updated_df = map (\<lambda>r. r ''Practice'') df
    \<and> list_all2 (\<lambda>nr (r, p). nr ''Practice'' = r ''Practice''
                    \<and> (psych_name p \<noteq> [] \<longrightarrow> nr ''Name'' = Some (Str (psych_name p))))
         new_rows (concat (map (\<lambda>r. map (Pair r) (tl (staff extracted_data r))) df))"
proof -
  let ?rs = "map (format_phone \<circ> ensure_columns) df"
  from assms have res: "process_rows today extracted_data 0 ?rs = (updated_df, new_rows, discrepancies)"
    by (simp add: format_data_for_excel_def split: if_splits)
  have u: "updated_df = fst (process_rows today extracted_data 0 ?rs)"
    and n: "new_rows = fst (snd (process_rows today extracted_data 0 ?rs))"
    by (simp_all add: res)
  have 1: "length updated_df = length df" by (simp add: u process_rows_length)
  have 2: "map (\<lambda>r. r ''Practice'') updated_df = map (\<lambda>r. r ''Practice'') df"
    by (simp add: u process_rows_practice o_def prepared_practice)
  have 3: "list_all2 (\<lambda>nr (r, p). nr ''Practice'' = r ''Practice''
                    \<and> (psych_name p \<noteq> [] \<longrightarrow> nr ''Name'' = Some (Str (psych_name p))))
         new_rows (concat (map (\<lambda>r. map (Pair r) (tl (staff extracted_data r))) df))"
    unfolding n process_rows_new_rows by (rule new_rows_paired)
  from 1 2 3 show ?thesis by blast
qed

lemma format_data_for_excel_returns:
  "list_all (\<lambda>r. r ''Practice'' \<noteq> None) df \<Longrightarrow>
     \<exists>res. format_data_for_excel today df extracted_data = Inr res"
  unfolding format_data_for_excel_def by (cases "process_rows today extracted_data 0 (map (format_phone \<circ> ensure_columns) df)") simp

lemma wisemind_lookup: "lookup_candidate wisemind_data wisemind_row = Found wisemind_candidate"
  by (simp add: lookup_candidate_def wisemind_data_def wisemind_row_def wisemind_candidate_def)

lemma wisemind_staff: "staff wisemind_data wisemind_row = psychologists wisemind_candidate"
  by (simp add: staff_def wisemind_lookup)

theorem format_data_for_excel_rows_witness:
  "\<exists>updated_df new_rows discrepancies.
     format_data_for_excel ''2025-01-01'' [wisemind_row] wisemind_data
       = Inr (updated_df, new_rows, discrepancies)
     \<and> length updated_df = 1
     \<and> map (\<lambda>r. r ''Practice'') updated_df = [Some (Str ''Wisemind Psychology'')]
     \<and> map (\<lambda>r. r ''Practice'') new_rows
         = [Some (Str ''Wisemind Psychology''), Some (Str ''Wisemind Psychology'')]
     \<and> map (\<lambda>r. r ''Name'') new_rows
         = [Some (Str ''Danielle Comerford''), Some (Str ''Rachel Hannam'')]"
proof -
  obtain u n d where r: "format_data_for_excel ''2025-01-01'' [wisemind_row] wisemind_data
       = Inr (u, n, d)"
    using format_data_for_excel_returns [of "[wisemind_row]" "''2025-01-01''" wisemind_data]
    by (auto simp: wisemind_row_def)
  from format_data_for_excel_rows [OF r] r show ?thesis
    by (simp add: wisemind_staff)
      (auto simp: wisemind_candidate_def wisemind_row_def list_all2_Cons2)
qed

lemma process_row_skip:
  "lookup_candidate ed r = Skip \<Longrightarrow> fst (process_row today ed idx r) = r"
  by (simp add: process_row_def)

lemma process_row_failed:
  "lookup_candidate ed r = Failed e \<Longrightarrow>
     fst (process_row today ed idx r) = r(''Notes'' \<mapsto> Str (''Extraction error: '' @ e))"
  by (simp add: process_row_def)

lemma format_data_for_excel_nth:
  assumes "format_data_for_excel today df ed = Inr (updated_df, new_rows, discrepancies)"
    and "i < length df"
  shows "updated_df ! i = fst (process_row today ed i (format_phone (ensure_columns (df ! i))))"
proof -
  let ?rs = "map (format_phone \<circ> ensure_columns) df"
  from assms(1) have "updated_df = fst (process_rows today ed 0 ?rs)"
    by (simp add: format_data_for_excel_def split: if_splits)
  with assms(2) process_rows_nth [of i ?rs today ed 0] show ?thesis by simp
qed

text \<open>
  C6, as stated, fails: for a record with no matching candidate the note is not written,
  and the phone, being valid, is replaced by its formatted form.
\<close>

theorem format_data_for_excel_unmatched_counterexample:
  "lookup_candidate Map.empty wisemind_row = Skip
   \<and> wisemind_row ''Phone'' = Some (Str ''0490193347'')
   \<and> wisemind_row ''Notes'' = Some (Str [])
   \<and> (case format_data_for_excel ''2025-01-01'' [wisemind_row] Map.empty of
         Inl e \<Rightarrow> []
       | Inr (updated_df, new_rows, discrepancies) \<Rightarrow>
           map (\<lambda>r. (r ''Phone'', r ''Notes'')) updated_df)
       = [(Some (Str ''0490 193 347''), Some (Str []))]"
  by code_simp

text \<open>
  C6, amended. For every existing record whose identity has no matching candidate, or
  whose candidate signals an error, reconciliation leaves every field other than the
  notes and the phone unchanged, and the phone is what the first pass made of it: its
  formatted form when it is valid. When the candidate signals an error, the notes field
  becomes \<open>Extraction error: \<close> followed by the error.
\<close>

theorem format_data_for_excel_unmatched:
  assumes "format_data_for_excel today df extracted_data = Inr (updated_df, new_rows, discrepancies)"
    and "i < length df"
  shows "(lookup_candidate extracted_data (df ! i) = Skip
            \<or> (\<exists>e. lookup_candidate extracted_data (df ! i) = Failed e) \<longrightarrow>
            (\<forall>col v. (df ! i) col = Some v \<and> col \<noteq> ''Phone'' \<and> col \<noteq> ''Notes''
                \<longrightarrow> (updated_df ! i) col = Some v)
            \<and> (updated_df ! i) ''Phone'' = format_phone (df ! i) ''Phone'')
       \<and> (\<forall>e. lookup_candidate extracted_data (df ! i) = Failed e \<longrightarrow>
            (updated_df ! i) ''Notes'' = Some (Str (''Extraction error: '' @ e)))"
proof -
  let ?r = "format_phone (ensure_columns (df ! i))"
  note nth = format_data_for_excel_nth [OF assms]
  have look: "lookup_candidate extracted_data ?r = lookup_candidate extracted_data (df ! i)"
    by (rule lookup_prepared)
  have failed: "updated_df ! i = ?r(''Notes'' \<mapsto> Str (''Extraction error: '' @ e))"
    if "lookup_candidate extracted_data (df ! i) = Failed e" for e
    using that nth look by (simp add: process_row_failed)
  have skip: "updated_df ! i = ?r" if "lookup_candidate extracted_data (df ! i) = Skip"
    using that nth look by (simp add: process_row_skip)
  show ?thesis
  proof (intro conjI impI allI)
    assume "lookup_candidate extracted_data (df ! i) = Skip
            \<or> (\<exists>e. lookup_candidate extracted_data (df ! i) = Failed e)"
    then show "(updated_df ! i) ''Phone'' = format_phone (df ! i) ''Phone''"
      using skip failed by (auto simp: prepared_phone)
  next
    fix col v
    assume "lookup_candidate extracted_data (df ! i) = Skip
            \<or> (\<exists>e. lookup_candidate extracted_data (df ! i) = Failed e)"
      and "(df ! i) col = Some v \<and> col \<noteq> ''Phone'' \<and> col \<noteq> ''Notes''"
    then show "(updated_df ! i) col = Some v"
      using skip failed by (auto simp: prepared_present)
  next
    fix e assume "lookup_candidate extracted_data (df ! i) = Failed e"
    then show "(updated_df ! i) ''Notes'' = Some (Str (''Extraction error: '' @ e))"
      by (simp add: failed)
  qed
qed

lemma wisemind_failed_lookup:
  "lookup_candidate wisemind_failed wisemind_row = Failed ''no response''"
  by (simp add: lookup_candidate_def wisemind_failed_def wisemind_row_def wisemind_candidate_def)

lemma wisemind_skip_lookup: "lookup_candidate Map.empty wisemind_row = Skip"
  by (simp add: lookup_candidate_def wisemind_row_def)

theorem format_data_for_excel_unmatched_witness:
  "(\<exists>updated_df new_rows discrepancies.
      format_data_for_excel ''2025-01-01'' [wisemind_row] Map.empty
        = Inr (updated_df, new_rows, discrepancies)
      \<and> (updated_df ! 0) ''Website'' = Some (Str ''http://www.wisemind.com.au'')
      \<and> (updated_df ! 0) ''Phone'' = Some (Str ''0490 193 347''))
   \<and> (\<exists>updated_df new_rows discrepancies.
      format_data_for_excel ''2025-01-01'' [wisemind_row] wisemind_failed
        = Inr (updated_df, new_rows, discrepancies)
      \<and> (updated_df ! 0) ''Website'' = Some (Str ''http://www.wisemind.com.au'')
      \<and> (updated_df ! 0) ''Phone'' = Some (Str ''0490 193 347'')
      \<and> (updated_df ! 0) ''Notes'' = Some (Str ''Extraction error: no response''))"
proof
  obtain u n d where r: "format_data_for_excel ''2025-01-01'' [wisemind_row] Map.empty
       = Inr (u, n, d)"
    using format_data_for_excel_returns [of "[wisemind_row]" "''2025-01-01''" Map.empty]
    by (auto simp: wisemind_row_def)
  have p: "format_phone wisemind_row ''Phone'' = Some (Str ''0490 193 347'')"
    by (simp add: format_phone_def wisemind_row_def validate_phone_mobile_example)
  from format_data_for_excel_unmatched [OF r, of 0] wisemind_skip_lookup p r
  show "\<exists>updated_df new_rows discrepancies.
      format_data_for_excel ''2025-01-01'' [wisemind_row] Map.empty
        = Inr (updated_df, new_rows, discrepancies)
      \<and> (updated_df ! 0) ''Website'' = Some (Str ''http://www.wisemind.com.au'')
      \<and> (updated_df ! 0) ''Phone'' = Some (Str ''0490 193 347'')"
    by (simp add: wisemind_row_def)
next
  obtain u n d where r: "format_data_for_excel ''2025-01-01'' [wisemind_row] wisemind_failed
       = Inr (u, n, d)"
    using format_data_for_excel_returns [of "[wisemind_row]" "''2025-01-01''" wisemind_failed]
    by (auto simp: wisemind_row_def)
  have p: "format_phone wisemind_row ''Phone'' = Some (Str ''0490 193 347'')"
    by (simp add: format_phone_def wisemind_row_def validate_phone_mobile_example)
  from format_data_for_excel_unmatched [OF r, of 0] wisemind_failed_lookup p r
  show "\<exists>updated_df new_rows discrepancies.
      format_data_for_excel ''2025-01-01'' [wisemind_row] wisemind_failed
        = Inr (updated_df, new_rows, discrepancies)
      \<and> (updated_df ! 0) ''Website'' = Some (Str ''http://www.wisemind.com.au'')
      \<and> (updated_df ! 0) ''Phone'' = Some (Str ''0490 193 347'')
      \<and> (updated_df ! 0) ''Notes'' = Some (Str ''Extraction error: no response'')"
    by (simp add: wisemind_row_def)
qed

lemma new_row_for_other:
  assumes "col \<noteq> ''Name''" "col \<noteq> ''Type''" "col \<noteq> ''Doctors''" "col \<noteq> ''Email''"
    "col \<noteq> ''Date''"
  shows "new_row_for today r c p col = r col"
  using assms by (simp add: new_row_for_def Let_def)

lemma validate_email_nonempty: "fst (validate_email s) \<Longrightarrow> s \<noteq> []"
  by (auto simp: validate_email_def)

lemma validate_url_nonempty: "fst (validate_url s) \<Longrightarrow> s \<noteq> []"
  by (auto simp: validate_url_def)

lemma new_row_for_email:
  "fst (validate_email (email c)) \<Longrightarrow>
     new_row_for today r c p ''Email'' = Some (Str (snd (validate_email (email c))))"
  by (simp add: new_row_for_def Let_def validate_email_nonempty)

lemma new_row_for_doctors:
  "fst (validate_url (doctor_page_url c)) \<Longrightarrow>
     new_row_for today r c p ''Doctors'' = Some (Str (snd (validate_url (doctor_page_url c))))"
  by (simp add: new_row_for_def Let_def validate_url_nonempty)

lemma found_has_practice:
  "lookup_candidate ed r = Found c \<Longrightarrow> r ''Practice'' \<noteq> None"
  by (auto simp: lookup_candidate_def split: option.splits)

text \<open>
  C1, as stated, fails on the repository's own test data: the new rows carry the phone
  as the first pass formatted it, not the phone of the existing row verbatim.
\<close>

theorem format_data_for_excel_three_staff_counterexample:
  "lookup_candidate wisemind_data wisemind_row = Found wisemind_candidate
   \<and> length (psychologists wisemind_candidate) = 3
   \<and> wisemind_row ''Phone'' = Some (Str ''0490193347'')
   \<and> (case format_data_for_excel ''2025-01-01'' [wisemind_row] wisemind_data of
         Inl e \<Rightarrow> []
       | Inr (updated_df, new_rows, discrepancies) \<Rightarrow> map (\<lambda>r. r ''Phone'') new_rows)
       = [Some (Str ''0490 193 347''), Some (Str ''0490 193 347'')]"
proof -
  have "(case format_data_for_excel ''2025-01-01'' [wisemind_row] wisemind_data of
         Inl e \<Rightarrow> []
       | Inr (updated_df, new_rows, discrepancies) \<Rightarrow> map (\<lambda>r. r ''Phone'') new_rows)
       = [Some (Str ''0490 193 347''), Some (Str ''0490 193 347'')]"
    by code_simp
  then show ?thesis
    by (simp add: wisemind_lookup) (simp add: wisemind_candidate_def wisemind_row_def)
qed

text \<open>
  C1, amended. Reconciling a candidate with exactly three staff entries against exactly
  one existing row gives exactly two new rows; each carries the address and the website
  of the existing row verbatim and its phone as \<open>validate_phone\<close> formats it (verbatim
  when it is not valid), and, when the email and the doctor page URL of the candidate are
  valid, their normalised values.
\<close>

theorem format_data_for_excel_three_staff:
  assumes "lookup_candidate extracted_data r = Found c"
    and "length (psychologists c) = 3"
  shows "\<exists>updated_df new_rows discrepancies.
     format_data_for_excel today [r] extracted_data = Inr (updated_df, new_rows, discrepancies)
     \<and> length new_rows = 2
     \<and> (\<forall>nr\<in>set new_rows.
           nr ''Address'' = r ''Address''
         \<and> nr ''Website'' = r ''Website''
         \<and> nr ''Phone'' = format_phone r ''Phone''
         \<and> (fst (validate_email (email c)) \<longrightarrow>
               nr ''Email'' = Some (Str (snd (validate_email (email c)))))
         \<and> (fst (validate_url (doctor_page_url c)) \<longrightarrow>
               nr ''Doctors'' = Some (Str (snd (validate_url (doctor_page_url c))))))"
proof -
  let ?r = "format_phone (ensure_columns r)"
  let ?new = "map (new_row_for today ?r c) (tl (psychologists c))"
  obtain u d where res: "format_data_for_excel today [r] extracted_data = Inr (u, ?new, d)"
  proof -
    have "process_rows today extracted_data 0 [?r]
       = (fst (process_rows today extracted_data 0 [?r]), ?new,
          snd (snd (process_rows today extracted_data 0 [?r])))"
      using process_rows_new_rows [of today extracted_data 0 "[?r]"] assms(1)
      by (simp add: clones_def lookup_prepared prod_eq_iff)
    then show ?thesis
      using that found_has_practice [OF assms(1)]
      by (auto simp: format_data_for_excel_def)
  qed
  have len: "length ?new = 2" using assms(2) by simp
  have fields: "nr ''Address'' = r ''Address'' \<and> nr ''Website'' = r ''Website''
      \<and> nr ''Phone'' = format_phone r ''Phone''
      \<and> (fst (validate_email (email c)) \<longrightarrow>
            nr ''Email'' = Some (Str (snd (validate_email (email c)))))
      \<and> (fst (validate_url (doctor_page_url c)) \<longrightarrow>
            nr ''Doctors'' = Some (Str (snd (validate_url (doctor_page_url c)))))"
    if "nr \<in> set ?new" for nr
  proof -
    from that obtain p where nr: "nr = new_row_for today ?r c p" by auto
    show ?thesis
      by (simp add: nr new_row_for_other new_row_for_email new_row_for_doctors
          prepared_other prepared_phone required_columns_def)
  qed
  from res len fields show ?thesis by blast
qed

theorem format_data_for_excel_three_staff_witness:
  "\<exists>updated_df new_rows discrepancies.
     format_data_for_excel ''2025-01-01'' [wisemind_row] wisemind_data
       = Inr (updated_df, new_rows, discrepancies)
     \<and> length new_rows = 2
     \<and> map (\<lambda>nr. (nr ''Address'', nr ''Website'', nr ''Phone'', nr ''Email'', nr ''Doctors''))
            new_rows
       = replicate 2
           (Some (Str ''Unit 2/40 Minchinton St, Caloundra QLD 4551''),
            Some (Str ''http://www.wisemind.com.au''),
            Some (Str ''0490 193 347''),
            Some (Str ''admin@wisemind.com.au''),
            Some (Str ''http://www.wisemind.com.au/our-team/''))"
proof -
  have e: "validate_email (email wisemind_candidate) = (True, ''admin@wisemind.com.au'')"
    unfolding wisemind_candidate_def by code_simp
  have d: "validate_url (doctor_page_url wisemind_candidate)
             = (True, ''http://www.wisemind.com.au/our-team/'')"
    unfolding wisemind_candidate_def by code_simp
  have p: "format_phone wisemind_row ''Phone'' = Some (Str ''0490 193 347'')"
    by (simp add: format_phone_def wisemind_row_def validate_phone_mobile_example)
  have 3: "length (psychologists wisemind_candidate) = 3"
    by (simp add: wisemind_candidate_def)
  from format_data_for_excel_three_staff [OF wisemind_lookup 3, of "''2025-01-01''"]
  obtain u n ds where r: "format_data_for_excel ''2025-01-01'' [wisemind_row] wisemind_data
       = Inr (u, n, ds)" and len: "length n = 2"
    and f: "\<forall>nr\<in>set n. nr ''Address'' = wisemind_row ''Address''
         \<and> nr ''Website'' = wisemind_row ''Website''
         \<and> nr ''Phone'' = Some (Str ''0490 193 347'')
         \<and> nr ''Email'' = Some (Str ''admin@wisemind.com.au'')
         \<and> nr ''Doctors'' = Some (Str ''http://www.wisemind.com.au/our-team/'')"
    by (auto simp: e d p)
  from len obtain a b where n: "n = [a, b]"
    by (cases n; cases "tl n") auto
  from f show ?thesis unfolding r n
    by (simp add: wisemind_row_def eval_nat_numeral)
qed

lemma flag_discrepancies_strings:
  assumes "existing_data field = Some (Str old)"
  shows "fst (flag_discrepancies existing_data [field \<mapsto> new] field)
           \<longleftrightarrow> old \<noteq> [] \<and> new \<noteq> [] \<and> strip old \<noteq> strip new"
  using assms by (simp add: flag_discrepancies_def truthy_def str_of_def)

lemma flag_discrepancies_absent:
  "existing_data field = None \<Longrightarrow> flag_discrepancies existing_data new_data field = (False, [])"
  by (simp add: flag_discrepancies_def)

lemma write_field_discrepancies:
  "snd (write_field idx r field v (updated, discrepancies)) =
     (if fst (flag_discrepancies r [field \<mapsto> v] field)
      then discrepancies @ [(idx, snd (flag_discrepancies r [field \<mapsto> v] field))]
      else discrepancies)"
  by (simp add: write_field_def)

text \<open>
  C2. The claim records no discrepancy when the old value is empty. An empty cell of the
  spreadsheet is \<open>NaN\<close> in the frame, \<open>not NaN\<close> is false in Python, and
  \<open>flag_discrepancies\<close> goes on to compare \<open>str(NaN) = 'nan'\<close> with the new value: the
  first email written into an empty cell is recorded as a discrepancy. (For a cell that
  holds a string the claim holds: \<open>flag_discrepancies_strings\<close>.)
\<close>

theorem flag_discrepancies_nan:
  "(wisemind_row(''Email'' \<mapsto> NaN)) ''Email'' = Some NaN
   \<and> flag_discrepancies (wisemind_row(''Email'' \<mapsto> NaN))
        [''Email'' \<mapsto> ''admin@wisemind.com.au''] ''Email''
       = (True, ''Discrepancy in Email: '' @ quote @ ''nan'' @ quote @ '' vs '' @ quote
                  @ ''admin@wisemind.com.au'' @ quote)
   \<and> (case format_data_for_excel ''2025-01-01'' [wisemind_row(''Email'' \<mapsto> NaN)] wisemind_data of
         Inl e \<Rightarrow> []
       | Inr (updated_df, new_rows, discrepancies) \<Rightarrow> discrepancies)
       = [(0, ''Discrepancy in Email: '' @ quote @ ''nan'' @ quote @ '' vs '' @ quote
                  @ ''admin@wisemind.com.au'' @ quote)]"
  by code_simp

theorem flag_discrepancies_nan_witness:
  "fst (flag_discrepancies (wisemind_row(''Email'' \<mapsto> NaN))
          [''Email'' \<mapsto> ''admin@wisemind.com.au''] ''Email'')"
  using flag_discrepancies_nan by simp

text \<open>With the empty strings of the test frame in place of \<open>NaN\<close>, nothing is recorded.\<close>

lemma format_data_for_excel_wisemind_no_discrepancy:
  "(case format_data_for_excel ''2025-01-01'' [wisemind_row] wisemind_data of
         Inl e \<Rightarrow> [(0, [])]
       | Inr (updated_df, new_rows, discrepancies) \<Rightarrow> discrepancies) = []"
  by code_simp


end
